theory Spec2Isabelle
  imports Main "HOL-Library.Word" "HOL-Library.Multiset" "HOL-Library.Char_ord"
    "HOL-Library.List_Lexorder" "HOL-Library.Product_Lexorder"
begin

section \<open>Bucket compaction control plane (pkg/compactor, bucket compactor)\<close>

text \<open>
  A shallow embedding of the Go source: the error classification (\<open>HaltError\<close>,
  \<open>RetryError\<close>, \<open>IsHaltError\<close>, \<open>IsRetryError\<close>, \<open>retry\<close>), the syncer's
  \<open>GarbageCollect\<close>, \<open>DefaultGrouper.Groups\<close>, \<open>runCompactionJob\<close> with
  \<open>deleteBlock\<close>, \<open>filterOwnJobs\<close> and \<open>NoCompactionMarkFilter.Filter\<close>.
  Calls into the bucket, the local disk, the planner and the TSDB compactor are oracles
  held in an environment record; what the code does with their answers is the model.
  The Go code is package \<open>compactor\<close>, the part of \<open>src/pkg/api/index.gohtml\<close> that
  follows the HTML template; line numbers in the text refer to that file.
\<close>

subsection \<open>Block identifiers and errors\<close>

text \<open>\<open>ulid.ULID\<close> is a 16-byte array; the zero ULID is \<open>ulid.ULID{}\<close>.\<close>

type_synonym ulid = "128 word"

definition zeroULID :: ulid where
  "zeroULID = 0"

text \<open>
  A non-nil Go \<open>error\<close>. \<open>Plain\<close> is an error with a message and no cause
  (\<open>errors.New\<close>, \<open>errors.Errorf\<close>); the next four are the error values the code
  compares by identity or receives from \<open>ctx.Err()\<close>: \<open>metadata.ErrorMarkerNotFound\<close>,
  \<open>metadata.ErrorUnmarshalMarker\<close>, \<open>context.Canceled\<close> and
  \<open>context.DeadlineExceeded\<close>; \<open>Wrap\<close> is what \<open>errors.Wrap\<close> and
  \<open>errors.Wrapf\<close> build (it has a \<open>Cause()\<close> method); the four classified types of the
  source have a field \<open>err\<close> and no \<open>Cause()\<close> method; \<open>NonNilMultiError\<close> is
  \<open>errutil.NonNilMultiError\<close>, a slice of errors.
\<close>

datatype err =
    Plain string
  | ErrorMarkerNotFound
  | ErrorUnmarshalMarker
  | ContextCanceled
  | ContextDeadlineExceeded
  | Wrap string err
  | HaltError err
  | RetryError err
  | Issue347Error err ulid
  | OutOfOrderChunksError err ulid
  | NonNilMultiError "err list"

text \<open>
  \<open>errors.Cause\<close> of github.com/pkg/errors: follow \<open>Cause()\<close> while the error has
  that method. Only the wrappers of pkg/errors have it.
\<close>

fun Cause :: "err \<Rightarrow> err" where
  "Cause (Wrap msg e) = Cause e"
| "Cause e = e"

text \<open>The type assertions \<open>.(HaltError)\<close>, \<open>.(RetryError)\<close> and so on.\<close>

fun isHaltErrorType :: "err \<Rightarrow> bool" where
  "isHaltErrorType (HaltError e) = True"
| "isHaltErrorType e = False"

fun isRetryErrorType :: "err \<Rightarrow> bool" where
  "isRetryErrorType (RetryError e) = True"
| "isRetryErrorType e = False"

fun isIssue347ErrorType :: "err \<Rightarrow> bool" where
  "isIssue347ErrorType (Issue347Error e i) = True"
| "isIssue347ErrorType e = False"

fun isOutOfOrderChunksErrorType :: "err \<Rightarrow> bool" where
  "isOutOfOrderChunksErrorType (OutOfOrderChunksError e i) = True"
| "isOutOfOrderChunksErrorType e = False"

definition halt :: "err \<Rightarrow> err" where
  "halt e = HaltError e"

definition issue347Error :: "err \<Rightarrow> ulid \<Rightarrow> err" where
  "issue347Error e brokenBlock = Issue347Error e brokenBlock"

definition outOfOrderChunkError :: "err \<Rightarrow> ulid \<Rightarrow> err" where
  "outOfOrderChunkError e brokenBlock = OutOfOrderChunksError e brokenBlock"

definition IsIssue347Error :: "err \<Rightarrow> bool" where
  "IsIssue347Error e = isIssue347ErrorType (Cause e)"

definition IsOutOfOrderChunkError :: "err \<Rightarrow> bool" where
  "IsOutOfOrderChunkError e = isOutOfOrderChunksErrorType (Cause e)"

text \<open>
  The loop of \<open>IsHaltError\<close> (lines 639-651) over the children of a multi-error: return
  true at the first child whose cause is a \<open>HaltError\<close>, false when the slice is exhausted.
\<close>

fun anyHaltChild :: "err list \<Rightarrow> bool" where
  "anyHaltChild [] = False"
| "anyHaltChild (c # cs) = (if isHaltErrorType (Cause c) then True else anyHaltChild cs)"

definition IsHaltError :: "err \<Rightarrow> bool" where
  "IsHaltError e =
     (case Cause e of
        NonNilMultiError multiErr \<Rightarrow> anyHaltChild multiErr
      | c \<Rightarrow> isHaltErrorType c)"

text \<open>
  The loop of \<open>IsRetryError\<close> (lines 672-684): return false at the first child whose
  cause is not a \<open>RetryError\<close>, true when the slice is exhausted.
\<close>

fun allRetryChildren :: "err list \<Rightarrow> bool" where
  "allRetryChildren [] = True"
| "allRetryChildren (c # cs) =
     (if \<not> isRetryErrorType (Cause c) then False else allRetryChildren cs)"

definition IsRetryError :: "err \<Rightarrow> bool" where
  "IsRetryError e =
     (case Cause e of
        NonNilMultiError multiErr \<Rightarrow> allRetryChildren multiErr
      | c \<Rightarrow> isRetryErrorType c)"

text \<open>\<open>retry\<close> (lines 659-664): an error that is classified Halt is returned as it is.\<close>

definition retry :: "err \<Rightarrow> err" where
  "retry e = (if IsHaltError e then e else RetryError e)"

subsection \<open>Error classification: lemmas\<close>

lemma anyHaltChild_iff: "anyHaltChild cs \<longleftrightarrow> (\<exists>c \<in> set cs. isHaltErrorType (Cause c))"
  by (induction cs) auto

lemma allRetryChildren_iff: "allRetryChildren cs \<longleftrightarrow> (\<forall>c \<in> set cs. isRetryErrorType (Cause c))"
  by (induction cs) auto

lemma Cause_idem: "Cause (Cause e) = Cause e"
  by (induction e rule: Cause.induct) simp_all

lemma Cause_not_Wrap: "Cause e \<noteq> Wrap msg e'"
  by (induction e rule: Cause.induct) simp_all

lemma IsHaltError_Wrap: "IsHaltError (Wrap msg e) = IsHaltError e"
  by (simp add: IsHaltError_def)

lemma IsRetryError_Wrap: "IsRetryError (Wrap msg e) = IsRetryError e"
  by (simp add: IsRetryError_def)

lemma IsHaltError_RetryError: "\<not> IsHaltError (RetryError e)"
  by (simp add: IsHaltError_def)

lemma IsRetryError_RetryError: "IsRetryError (RetryError e)"
  by (simp add: IsRetryError_def)

lemma halt_type_not_retry_type: "isHaltErrorType x \<Longrightarrow> \<not> isRetryErrorType x"
  by (cases x) simp_all

lemma IsHaltError_not_IsRetryError: "IsHaltError e \<Longrightarrow> \<not> IsRetryError e"
  by (cases "Cause e")
    (auto simp: IsHaltError_def IsRetryError_def anyHaltChild_iff allRetryChildren_iff
      dest: halt_type_not_retry_type)

lemma retry_cases: "retry e = e \<and> IsHaltError e \<or> retry e = RetryError e \<and> \<not> IsHaltError e"
  by (simp add: retry_def)

lemma IsHaltError_retry: "IsHaltError (retry e) = IsHaltError e"
  by (simp add: retry_def IsHaltError_RetryError)

lemma IsRetryError_retry: "IsRetryError (retry e) = (\<not> IsHaltError e)"
  by (auto simp: retry_def IsRetryError_RetryError dest: IsHaltError_not_IsRetryError)

subsection \<open>Error classification: the claims\<close>

text \<open>
  C3. For a non-empty multi-error aggregate, \<open>IsHaltError\<close> holds iff some child's
  cause is a \<open>HaltError\<close>, and \<open>IsRetryError\<close> holds iff every child's cause is a
  \<open>RetryError\<close>. A multi-error of one Retry and one Halt child is Halt and is not Retry. For an error whose cause is not a
  multi-error, each predicate holds iff the cause is of the corresponding classified type.
\<close>

theorem C3_classification_traverses_multi_errors:
  "(cs \<noteq> [] \<longrightarrow>
      (IsHaltError (NonNilMultiError cs) \<longleftrightarrow> (\<exists>c \<in> set cs. isHaltErrorType (Cause c))) \<and>
      (IsRetryError (NonNilMultiError cs) \<longleftrightarrow> (\<forall>c \<in> set cs. isRetryErrorType (Cause c))))
   \<and> IsHaltError (NonNilMultiError [RetryError r, HaltError h])
   \<and> \<not> IsRetryError (NonNilMultiError [RetryError r, HaltError h])
   \<and> ((\<forall>cs'. Cause e \<noteq> NonNilMultiError cs') \<longrightarrow>
        (IsHaltError e \<longleftrightarrow> isHaltErrorType (Cause e)) \<and>
        (IsRetryError e \<longleftrightarrow> isRetryErrorType (Cause e)))"
proof -
  have multi: "IsHaltError (NonNilMultiError xs) \<longleftrightarrow> (\<exists>c \<in> set xs. isHaltErrorType (Cause c))"
    "IsRetryError (NonNilMultiError xs) \<longleftrightarrow> (\<forall>c \<in> set xs. isRetryErrorType (Cause c))" for xs
    by (simp_all add: IsHaltError_def IsRetryError_def anyHaltChild_iff allRetryChildren_iff)
  have single: "IsHaltError e \<longleftrightarrow> isHaltErrorType (Cause e)"
    "IsRetryError e \<longleftrightarrow> isRetryErrorType (Cause e)"
    if "\<forall>cs'. Cause e \<noteq> NonNilMultiError cs'"
    using that by (cases "Cause e"; simp add: IsHaltError_def IsRetryError_def)+
  show ?thesis
    using multi single by simp
qed

theorem C3_classification_witness:
  "[RetryError (Plain ''timeout''), Wrap ''group'' (HaltError (Plain ''bad index''))] \<noteq> []
   \<and> IsHaltError (NonNilMultiError
        [RetryError (Plain ''timeout''), Wrap ''group'' (HaltError (Plain ''bad index''))])
   \<and> \<not> IsRetryError (NonNilMultiError
        [RetryError (Plain ''timeout''), Wrap ''group'' (HaltError (Plain ''bad index''))])
   \<and> IsRetryError (NonNilMultiError [RetryError (Plain ''a''), RetryError (Plain ''b'')])
   \<and> (\<forall>cs'. Cause (Wrap ''sync'' (HaltError (Plain ''x''))) \<noteq> NonNilMultiError cs')
   \<and> IsHaltError (Wrap ''sync'' (HaltError (Plain ''x'')))
   \<and> \<not> IsRetryError (Wrap ''sync'' (HaltError (Plain ''x'')))"
  using
    C3_classification_traverses_multi_errors
      [of "[RetryError (Plain ''timeout''), Wrap ''group'' (HaltError (Plain ''bad index''))]"
          "Plain ''r''" "Plain ''h''" "Wrap ''sync'' (HaltError (Plain ''x''))"]
    C3_classification_traverses_multi_errors
      [of "[RetryError (Plain ''a''), RetryError (Plain ''b'')]"
          "Plain ''r''" "Plain ''h''" "Plain ''y''"]
  by simp

text \<open>
  C6. For every error whose cause is a \<open>HaltError\<close>, \<open>retry\<close> returns the error itself;
  the result is still classified Halt and is not classified Retry.
\<close>

theorem C6_retry_keeps_halt:
  "isHaltErrorType (Cause e) \<Longrightarrow>
     retry e = e \<and> IsHaltError (retry e) \<and> \<not> IsRetryError (retry e)"
proof -
  assume h: "isHaltErrorType (Cause e)"
  then have "IsHaltError e"
    by (cases "Cause e") (simp_all add: IsHaltError_def)
  then show ?thesis
    by (simp add: retry_def IsHaltError_not_IsRetryError)
qed

theorem C6_retry_keeps_halt_witness:
  "isHaltErrorType (Cause (Wrap ''compact blocks'' (HaltError (Plain ''merge failed''))))
   \<and> retry (Wrap ''compact blocks'' (HaltError (Plain ''merge failed'')))
       = Wrap ''compact blocks'' (HaltError (Plain ''merge failed''))
   \<and> retry (halt (Plain ''merge failed'')) = halt (Plain ''merge failed'')"
  using C6_retry_keeps_halt [of "Wrap ''compact blocks'' (HaltError (Plain ''merge failed''))"]
    C6_retry_keeps_halt [of "halt (Plain ''merge failed'')"]
  by (simp add: halt_def)

text \<open>
  C10. On a multi-error with no children \<open>IsRetryError\<close> is true and \<open>IsHaltError\<close> is
  false.
\<close>

theorem C10_empty_multi_error:
  "IsRetryError (NonNilMultiError []) \<and> \<not> IsHaltError (NonNilMultiError [])"
  by (simp add: IsRetryError_def IsHaltError_def)


subsection \<open>Block metadata and the syncer\<close>

text \<open>
  The fields of \<open>metadata.Meta\<close> that the code reads: \<open>ULID\<close>, \<open>MinTime\<close>,
  \<open>MaxTime\<close> (int64), \<open>Stats.NumSamples\<close> (uint64), \<open>Compaction.Level\<close>,
  \<open>Thanos.Labels\<close> (as \<open>labels.FromMap\<close> lists them) and
  \<open>Thanos.Downsample.Resolution\<close> (int64).
\<close>

record meta =
  ULID :: ulid
  MinTime :: "64 word"
  MaxTime :: "64 word"
  NumSamples :: "64 word"
  CompactionLevel :: int
  Labels :: "(string \<times> string) list"
  Resolution :: "64 word"

text \<open>
  The state \<open>GarbageCollect\<close> reads and writes: the syncer's snapshot \<open>blocks\<close>, the
  deletion marks written to the bucket (in the order of the writes) and the three counters.
\<close>

record syncer =
  blocks :: "ulid \<rightharpoonup> meta"
  bktDeletionMarks :: "ulid list"
  garbageCollectedBlocks :: nat
  garbageCollections :: nat
  garbageCollectionFailures :: nat

text \<open>What \<open>ctx.Err()\<close> returns for a context that is live, cancelled or past its deadline.\<close>

datatype ctx_status = CtxLive | CtxCanceled | CtxDeadlineExceeded

fun ctxErr :: "ctx_status \<Rightarrow> err option" where
  "ctxErr CtxLive = None"
| "ctxErr CtxCanceled = Some ContextCanceled"
| "ctxErr CtxDeadlineExceeded = Some ContextDeadlineExceeded"

text \<open>
  The first loop of \<open>GarbageCollect\<close> (lines 193-237): the duplicate IDs that have no
  deletion mark yet.
\<close>

fun garbageIDsOf :: "(ulid \<rightharpoonup> 'mark) \<Rightarrow> ulid list \<Rightarrow> ulid list" where
  "garbageIDsOf deletionMarkMap [] = []"
| "garbageIDsOf deletionMarkMap (i # duplicateIDs) =
     (if deletionMarkMap i \<noteq> None then garbageIDsOf deletionMarkMap duplicateIDs
      else i # garbageIDsOf deletionMarkMap duplicateIDs)"

text \<open>
  The second loop. \<open>ctx n\<close> is the status of the caller's context at the \<open>n\<close>-th
  iteration; \<open>markForDeletion i\<close> is the answer of \<open>block.MarkForDeletion\<close> for block
  \<open>i\<close> (\<open>None\<close> is success, and then the mark is in the bucket).
\<close>

fun gcLoop ::
  "(nat \<Rightarrow> ctx_status) \<Rightarrow> (ulid \<Rightarrow> err option) \<Rightarrow> nat \<Rightarrow> ulid list \<Rightarrow> syncer
     \<Rightarrow> err option \<times> syncer" where
  "gcLoop ctx markForDeletion n [] s = (None, s)"
| "gcLoop ctx markForDeletion n (i # ids) s =
     (case ctxErr (ctx n) of
        Some e \<Rightarrow> (Some e, s)
      | None \<Rightarrow>
          (case markForDeletion i of
             Some e \<Rightarrow>
               (Some (retry (Wrap ''mark block %s for deletion'' e)),
                s\<lparr>garbageCollectionFailures := garbageCollectionFailures s + 1\<rparr>)
           | None \<Rightarrow>
               gcLoop ctx markForDeletion (Suc n) ids
                 (s\<lparr>bktDeletionMarks := bktDeletionMarks s @ [i],
                    blocks := (blocks s)(i := None),
                    garbageCollectedBlocks := garbageCollectedBlocks s + 1\<rparr>)))"

definition GarbageCollect ::
  "(nat \<Rightarrow> ctx_status) \<Rightarrow> (ulid \<Rightarrow> err option) \<Rightarrow> (ulid \<rightharpoonup> 'mark) \<Rightarrow> ulid list \<Rightarrow> syncer
     \<Rightarrow> err option \<times> syncer" where
  "GarbageCollect ctx markForDeletion deletionMarkMap duplicateIDs s =
     (case gcLoop ctx markForDeletion 0 (garbageIDsOf deletionMarkMap duplicateIDs) s of
        (Some e, s') \<Rightarrow> (Some e, s')
      | (None, s') \<Rightarrow> (None, s'\<lparr>garbageCollections := garbageCollections s' + 1\<rparr>))"

subsection \<open>Garbage collection: lemmas\<close>

lemma garbageIDsOf_filter:
  "garbageIDsOf dm ids = filter (\<lambda>i. dm i = None) ids"
  by (induction ids) auto

lemma gcLoop_error_shape:
  "gcLoop ctx mark n ids s = (Some e, s') \<Longrightarrow>
     (\<exists>k. ctxErr (ctx k) = Some e) \<or>
     (\<exists>i me. i \<in> set ids \<and> mark i = Some me \<and>
        e = retry (Wrap ''mark block %s for deletion'' me))"
proof (induction ids arbitrary: n s)
  case Nil
  then show ?case by simp
next
  case (Cons i ids)
  show ?case
  proof (cases "ctxErr (ctx n)")
    case (Some ce)
    with Cons.prems show ?thesis by auto
  next
    case None
    note live = this
    show ?thesis
    proof (cases "mark i")
      case (Some me)
      with live Cons.prems show ?thesis by auto
    next
      case None
      with live Cons.prems Cons.IH show ?thesis by fastforce
    qed
  qed
qed

lemma gcLoop_snapshot:
  "gcLoop ctx mark n ids s = (r, s') \<Longrightarrow>
     \<exists>marked. bktDeletionMarks s' = bktDeletionMarks s @ marked \<and>
       blocks s' = (\<lambda>i. if i \<in> set marked then None else blocks s i) \<and>
       (\<forall>i \<in> set marked. mark i = None) \<and>
       (r = None \<longrightarrow> marked = ids) \<and>
       (\<exists>rest. ids = marked @ rest)"
proof (induction ids arbitrary: n s)
  case Nil
  then show ?case by auto
next
  case (Cons i ids)
  show ?case
  proof (cases "ctxErr (ctx n)")
    case (Some ce)
    with Cons.prems have "r = Some ce" "s' = s" by auto
    then show ?thesis by (intro exI [of _ "[]"]) simp
  next
    case None
    note live = this
    show ?thesis
    proof (cases "mark i")
      case (Some me)
      with live Cons.prems have "r \<noteq> None"
        "s' = s\<lparr>garbageCollectionFailures := garbageCollectionFailures s + 1\<rparr>"
        by auto
      then show ?thesis by (intro exI [of _ "[]"]) simp
    next
      case None
      let ?s1 = "s\<lparr>bktDeletionMarks := bktDeletionMarks s @ [i],
                    blocks := (blocks s)(i := None),
                    garbageCollectedBlocks := garbageCollectedBlocks s + 1\<rparr>"
      from None live Cons.prems have "gcLoop ctx mark (Suc n) ids ?s1 = (r, s')"
        by simp
      from Cons.IH [OF this] obtain marked rest where
        m: "bktDeletionMarks s' = bktDeletionMarks ?s1 @ marked"
          "blocks s' = (\<lambda>j. if j \<in> set marked then None else blocks ?s1 j)"
          "\<forall>j \<in> set marked. mark j = None"
          "r = None \<longrightarrow> marked = ids"
          "ids = marked @ rest"
        by blast
      have "bktDeletionMarks s' = bktDeletionMarks s @ (i # marked)"
        using m(1) by simp
      moreover have "blocks s' = (\<lambda>j. if j \<in> set (i # marked) then None else blocks s j)"
        using m(2) by auto
      moreover have "\<forall>j \<in> set (i # marked). mark j = None"
        using m(3) None by simp
      moreover have "r = None \<longrightarrow> i # marked = i # ids"
        using m(4) by simp
      moreover have "i # ids = (i # marked) @ rest"
        using m(5) by simp
      ultimately show ?thesis by blast
    qed
  qed
qed


subsection \<open>Garbage collection: the claims\<close>

text \<open>Example values for evaluating the model on concrete inputs.\<close>

abbreviation exMeta :: "ulid \<Rightarrow> 64 word \<Rightarrow> meta" where
  "exMeta i n \<equiv>
     \<lparr>ULID = i, MinTime = 0, MaxTime = 10, NumSamples = n, CompactionLevel = 1,
      Labels = [(''tenant'', ''a'')], Resolution = 0\<rparr>"

abbreviation exSyncer :: syncer where
  "exSyncer \<equiv>
     \<lparr>blocks = [1 \<mapsto> exMeta 1 100, 2 \<mapsto> exMeta 2 100, 3 \<mapsto> exMeta 3 100],
      bktDeletionMarks = [], garbageCollectedBlocks = 0, garbageCollections = 0,
      garbageCollectionFailures = 0\<rparr>"

abbreviation noDeletionMarks :: "ulid \<rightharpoonup> unit" where
  "noDeletionMarks \<equiv> Map.empty"

text \<open>
  C2, as stated, fails: with a cancelled context and one garbage block, \<open>GarbageCollect\<close>
  returns \<open>ctx.Err()\<close> as it is, and \<open>IsRetryError\<close> does not hold on it.
\<close>

theorem C2_cancelled_context_counterexample:
  "fst (GarbageCollect (\<lambda>n. CtxCanceled) (\<lambda>i. None) noDeletionMarks [1] exSyncer)
     = Some ContextCanceled
   \<and> \<not> IsRetryError ContextCanceled"
  by (simp add: GarbageCollect_def IsRetryError_def)

text \<open>
  C2, amended. When \<open>GarbageCollect\<close> returns an error, either the caller's context was
  cancelled or past its deadline and the error is \<open>ctx.Err()\<close> unchanged, which is
  classified neither Retry nor Halt; or a mark-for-deletion write failed and the error is
  \<open>retry\<close> of the wrapped write error, which is classified Retry and not Halt unless the
  write error was itself classified Halt (\<open>retry\<close> leaves such an error as it is).
\<close>

theorem C2_GarbageCollect_error_classification:
  assumes "GarbageCollect ctx markForDeletion deletionMarkMap duplicateIDs s = (Some e, s')"
  shows "(\<exists>n. ctxErr (ctx n) = Some e) \<and> \<not> IsRetryError e \<and> \<not> IsHaltError e
     \<or> (\<exists>i me. i \<in> set duplicateIDs \<and> deletionMarkMap i = None \<and>
           markForDeletion i = Some me \<and>
           e = retry (Wrap ''mark block %s for deletion'' me) \<and>
           IsRetryError e = (\<not> IsHaltError me) \<and> IsHaltError e = IsHaltError me)"
proof -
  from assms have
    loop: "gcLoop ctx markForDeletion 0 (garbageIDsOf deletionMarkMap duplicateIDs) s = (Some e, s')"
    by (auto simp: GarbageCollect_def split: prod.splits option.splits)
  from gcLoop_error_shape [OF loop] show ?thesis
  proof
    assume "\<exists>k. ctxErr (ctx k) = Some e"
    then obtain k where k: "ctxErr (ctx k) = Some e" ..
    then have "e = ContextCanceled \<or> e = ContextDeadlineExceeded"
      by (cases "ctx k") auto
    then have "\<not> IsRetryError e \<and> \<not> IsHaltError e"
      by (auto simp: IsRetryError_def IsHaltError_def)
    with k show ?thesis by blast
  next
    assume "\<exists>i me. i \<in> set (garbageIDsOf deletionMarkMap duplicateIDs) \<and>
      markForDeletion i = Some me \<and> e = retry (Wrap ''mark block %s for deletion'' me)"
    then obtain i me where
      i: "i \<in> set (garbageIDsOf deletionMarkMap duplicateIDs)" and
      me: "markForDeletion i = Some me" and
      e: "e = retry (Wrap ''mark block %s for deletion'' me)"
      by blast
    from i have "i \<in> set duplicateIDs" "deletionMarkMap i = None"
      by (simp_all add: garbageIDsOf_filter)
    moreover have "IsRetryError e = (\<not> IsHaltError me)" "IsHaltError e = IsHaltError me"
      using e by (simp_all add: IsRetryError_retry IsHaltError_retry IsHaltError_Wrap)
    ultimately show ?thesis using me e by blast
  qed
qed

theorem C2_GarbageCollect_error_witness:
  "fst (GarbageCollect (\<lambda>n. CtxLive) (\<lambda>i. if i = 2 then Some (Plain ''bucket 503'') else None)
          noDeletionMarks [1, 2, 3] exSyncer)
     = Some (RetryError (Wrap ''mark block %s for deletion'' (Plain ''bucket 503'')))
   \<and> IsRetryError (RetryError (Wrap ''mark block %s for deletion'' (Plain ''bucket 503'')))
   \<and> \<not> IsHaltError (RetryError (Wrap ''mark block %s for deletion'' (Plain ''bucket 503'')))"
proof -
  let ?mark = "\<lambda>i::ulid. if i = 2 then Some (Plain ''bucket 503'') else None"
  let ?run = "GarbageCollect (\<lambda>n. CtxLive) ?mark noDeletionMarks [1, 2, 3] exSyncer"
  let ?e = "RetryError (Wrap ''mark block %s for deletion'' (Plain ''bucket 503''))"
  have run: "?run = (Some ?e, snd ?run)"
    by (simp add: GarbageCollect_def retry_def IsHaltError_def)
  from C2_GarbageCollect_error_classification [OF run]
  have "IsRetryError ?e \<and> \<not> IsHaltError ?e"
    by (auto simp: IsHaltError_def)
  with run show ?thesis by (metis fst_conv)
qed

text \<open>
  C8. \<open>GarbageCollect\<close> is not atomic on failure: when it returns an error, the blocks it
  has marked in the bucket during the call are exactly the ones it removed from the
  snapshot; they stay removed, the rest of the snapshot is as before, and so the snapshot
  differs from the one before the call as soon as one of the marked blocks was in it.
\<close>

theorem C8_GarbageCollect_not_atomic:
  assumes "GarbageCollect ctx markForDeletion deletionMarkMap duplicateIDs s = (Some e, s')"
  shows "\<exists>marked.
      bktDeletionMarks s' = bktDeletionMarks s @ marked \<and>
      (\<forall>i \<in> set marked. markForDeletion i = None \<and> blocks s' i = None) \<and>
      (\<forall>i. i \<notin> set marked \<longrightarrow> blocks s' i = blocks s i) \<and>
      ((\<exists>i \<in> set marked. blocks s i \<noteq> None) \<longrightarrow> blocks s' \<noteq> blocks s)"
proof -
  from assms have
    loop: "gcLoop ctx markForDeletion 0 (garbageIDsOf deletionMarkMap duplicateIDs) s = (Some e, s')"
    by (auto simp: GarbageCollect_def split: prod.splits option.splits)
  from gcLoop_snapshot [OF loop] obtain marked where
    m: "bktDeletionMarks s' = bktDeletionMarks s @ marked"
       "blocks s' = (\<lambda>i. if i \<in> set marked then None else blocks s i)"
       "\<forall>i \<in> set marked. markForDeletion i = None"
    by blast
  have "(\<exists>i \<in> set marked. blocks s i \<noteq> None) \<longrightarrow> blocks s' \<noteq> blocks s"
  proof
    assume "\<exists>i \<in> set marked. blocks s i \<noteq> None"
    then obtain i where "i \<in> set marked" "blocks s i \<noteq> None" by blast
    with m(2) have "blocks s' i = None" "blocks s i \<noteq> None" by simp_all
    then have "blocks s' i \<noteq> blocks s i" by metis
    then show "blocks s' \<noteq> blocks s" by auto
  qed
  with m show ?thesis by (intro exI [of _ marked]) simp
qed

theorem C8_GarbageCollect_not_atomic_witness:
  "fst (GarbageCollect (\<lambda>n. CtxLive) (\<lambda>i. if i = 2 then Some (Plain ''bucket 503'') else None)
          noDeletionMarks [1, 2, 3] exSyncer) \<noteq> None
   \<and> bktDeletionMarks (snd (GarbageCollect (\<lambda>n. CtxLive)
          (\<lambda>i. if i = 2 then Some (Plain ''bucket 503'') else None)
          noDeletionMarks [1, 2, 3] exSyncer)) = [1]
   \<and> blocks (snd (GarbageCollect (\<lambda>n. CtxLive)
          (\<lambda>i. if i = 2 then Some (Plain ''bucket 503'') else None)
          noDeletionMarks [1, 2, 3] exSyncer)) 1 = None
   \<and> blocks (snd (GarbageCollect (\<lambda>n. CtxLive)
          (\<lambda>i. if i = 2 then Some (Plain ''bucket 503'') else None)
          noDeletionMarks [1, 2, 3] exSyncer)) \<noteq> blocks exSyncer"
proof -
  let ?mark = "\<lambda>i::ulid. if i = 2 then Some (Plain ''bucket 503'') else None"
  let ?run = "GarbageCollect (\<lambda>n. CtxLive) ?mark noDeletionMarks [1, 2, 3] exSyncer"
  let ?e = "RetryError (Wrap ''mark block %s for deletion'' (Plain ''bucket 503''))"
  have run: "?run = (Some ?e, snd ?run)"
    by (simp add: GarbageCollect_def retry_def IsHaltError_def)
  have marks: "bktDeletionMarks (snd ?run) = [1]"
    by (simp add: GarbageCollect_def)
  from C8_GarbageCollect_not_atomic [OF run] obtain marked where
    m: "bktDeletionMarks (snd ?run) = bktDeletionMarks exSyncer @ marked"
       "\<forall>i \<in> set marked. ?mark i = None \<and> blocks (snd ?run) i = None"
       "(\<exists>i \<in> set marked. blocks exSyncer i \<noteq> None) \<longrightarrow> blocks (snd ?run) \<noteq> blocks exSyncer"
    by blast
  from m(1) marks have "marked = [1]" by simp
  with m(2,3) have "blocks (snd ?run) 1 = None" "blocks (snd ?run) \<noteq> blocks exSyncer"
    by simp_all
  with run marks show ?thesis by (metis fst_conv option.distinct(1))
qed


subsection \<open>Jobs and ownership filtering\<close>

text \<open>
  The fields of a compaction \<open>Job\<close> behind the accessors the code calls (\<open>Key()\<close>,
  \<open>Labels()\<close>, \<open>Resolution()\<close>, \<open>UseSplitting()\<close>, \<open>SplittingShards()\<close>) and the
  field \<open>metasByMinTime\<close> that \<open>runCompactionJob\<close> reads.
\<close>

record job =
  userID :: string
  key :: string
  labels :: "(string \<times> string) list"
  resolution :: "64 word"
  hashFunc :: string
  useSplitting :: bool
  splitNumShards :: "32 word"
  shardingKey :: string
  metasByMinTime :: "meta list"

text \<open>
  \<open>filterOwnJobs\<close> (lines 1036-1048): the index loop over the slice. A job that is not owned is cut out
  with \<open>append(jobs[:ix], jobs[ix+1:]...)\<close> and the index stays; an owned job advances
  the index; an error of the ownership check returns \<open>nil\<close> and the error under
  \<open>errors.Wrap(err, "ownJob")\<close>.
\<close>

function filterOwnJobsLoop :: "('j \<Rightarrow> err + bool) \<Rightarrow> 'j list \<Rightarrow> nat \<Rightarrow> err + 'j list" where
  "filterOwnJobsLoop ownJob jobs ix =
     (if ix < length jobs then
        (case ownJob (jobs ! ix) of
           Inl e \<Rightarrow> Inl (Wrap ''ownJob'' e)
         | Inr ok \<Rightarrow>
             if \<not> ok then filterOwnJobsLoop ownJob (take ix jobs @ drop (ix + 1) jobs) ix
             else filterOwnJobsLoop ownJob jobs (ix + 1))
      else Inr jobs)"
  by pat_completeness auto
termination
  by (relation "measure (\<lambda>(ownJob, jobs, ix). length jobs - ix)") auto

declare filterOwnJobsLoop.simps [simp del]

definition filterOwnJobs :: "('j \<Rightarrow> err + bool) \<Rightarrow> 'j list \<Rightarrow> err + 'j list" where
  "filterOwnJobs ownJob jobs = filterOwnJobsLoop ownJob jobs 0"

text \<open>The first job, in slice order, whose ownership check fails.\<close>

fun firstOwnJobError :: "('j \<Rightarrow> err + bool) \<Rightarrow> 'j list \<Rightarrow> err option" where
  "firstOwnJobError ownJob [] = None"
| "firstOwnJobError ownJob (j # js) =
     (case ownJob j of Inl e \<Rightarrow> Some e | Inr ok \<Rightarrow> firstOwnJobError ownJob js)"

lemma firstOwnJobError_None:
  "firstOwnJobError ownJob js = None \<longleftrightarrow> (\<forall>j \<in> set js. \<exists>ok. ownJob j = Inr ok)"
  by (induction js) (auto split: sum.splits)

lemma firstOwnJobError_Some:
  "firstOwnJobError ownJob js = Some e \<Longrightarrow>
     \<exists>pre j post. js = pre @ j # post \<and> ownJob j = Inl e \<and>
       (\<forall>p \<in> set pre. \<exists>ok. ownJob p = Inr ok)"
proof (induction js)
  case Nil
  then show ?case by simp
next
  case (Cons a js)
  show ?case
  proof (cases "ownJob a")
    case (Inl e')
    with Cons.prems have "e' = e" by simp
    with Inl have "a # js = [] @ a # js \<and> ownJob a = Inl e \<and>
        (\<forall>p \<in> set []. \<exists>ok. ownJob p = Inr ok)"
      by simp
    then show ?thesis by blast
  next
    case (Inr ok)
    with Cons.prems have "firstOwnJobError ownJob js = Some e" by simp
    from Cons.IH [OF this] obtain pre j post where
      "js = pre @ j # post" "ownJob j = Inl e" "\<forall>p \<in> set pre. \<exists>ok. ownJob p = Inr ok"
      by blast
    with Inr have "a # js = (a # pre) @ j # post \<and> ownJob j = Inl e \<and>
        (\<forall>p \<in> set (a # pre). \<exists>ok. ownJob p = Inr ok)"
      by simp
    then show ?thesis by blast
  qed
qed

lemma filterOwnJobsLoop_eq:
  "ix \<le> length jobs \<Longrightarrow>
   filterOwnJobsLoop ownJob jobs ix =
     (case firstOwnJobError ownJob (drop ix jobs) of
        Some e \<Rightarrow> Inl (Wrap ''ownJob'' e)
      | None \<Rightarrow> Inr (take ix jobs @ filter (\<lambda>j. ownJob j = Inr True) (drop ix jobs)))"
proof (induction ownJob jobs ix rule: filterOwnJobsLoop.induct)
  case (1 ownJob jobs ix)
  show ?case
  proof (cases "ix < length jobs")
    case False
    with "1.prems" show ?thesis
      by (subst filterOwnJobsLoop.simps) (simp split: option.split)
  next
    case True
    then have d: "drop ix jobs = jobs ! ix # drop (Suc ix) jobs"
      by (simp add: Cons_nth_drop_Suc)
    show ?thesis
    proof (cases "ownJob (jobs ! ix)")
      case (Inl e)
      with True d show ?thesis
        by (subst filterOwnJobsLoop.simps) (simp split: option.split)
    next
      case (Inr ok)
      show ?thesis
      proof (cases ok)
        case False
        let ?js = "take ix jobs @ drop (ix + 1) jobs"
        have len: "ix \<le> length ?js" using True by simp
        have dr: "drop ix ?js = drop (Suc ix) jobs" using True by simp
        have tk: "take ix ?js = take ix jobs" using True by simp
        have ih: "filterOwnJobsLoop ownJob ?js ix =
          (case firstOwnJobError ownJob (drop ix ?js) of
             Some e \<Rightarrow> Inl (Wrap ''ownJob'' e)
           | None \<Rightarrow> Inr (take ix ?js @ filter (\<lambda>j. ownJob j = Inr True) (drop ix ?js)))"
          using "1.IH"(1) [OF True Inr _ len] False by simp
        have step: "filterOwnJobsLoop ownJob jobs ix = filterOwnJobsLoop ownJob ?js ix"
          using True Inr False by (subst filterOwnJobsLoop.simps) simp
        show ?thesis
          unfolding step ih dr tk using Inr False by (simp add: d split: option.split)
      next
        case ok: True
        have len: "ix + 1 \<le> length jobs" using True by simp
        have ih: "filterOwnJobsLoop ownJob jobs (ix + 1) =
          (case firstOwnJobError ownJob (drop (ix + 1) jobs) of
             Some e \<Rightarrow> Inl (Wrap ''ownJob'' e)
           | None \<Rightarrow> Inr (take (ix + 1) jobs @
               filter (\<lambda>j. ownJob j = Inr True) (drop (ix + 1) jobs)))"
          using "1.IH"(2) [OF True Inr _ len] ok by simp
        have step: "filterOwnJobsLoop ownJob jobs ix = filterOwnJobsLoop ownJob jobs (ix + 1)"
          using True Inr ok by (subst filterOwnJobsLoop.simps) simp
        show ?thesis
          unfolding step ih using Inr ok True
          by (simp add: d take_Suc_conv_app_nth split: option.split)
      qed
    qed
  qed
qed

lemma filterOwnJobs_eq:
  "filterOwnJobs ownJob jobs =
     (case firstOwnJobError ownJob jobs of
        Some e \<Rightarrow> Inl (Wrap ''ownJob'' e)
      | None \<Rightarrow> Inr (filter (\<lambda>j. ownJob j = Inr True) jobs))"
  by (simp add: filterOwnJobs_def filterOwnJobsLoop_eq split: option.split)


abbreviation exJob :: "string \<Rightarrow> job" where
  "exJob k \<equiv>
     \<lparr>userID = ''user-1'', key = k, labels = [(''tenant'', ''a'')], resolution = 0,
      hashFunc = [], useSplitting = False, splitNumShards = 0, shardingKey = [],
      metasByMinTime = []\<rparr>"

text \<open>
  C9. When the ownership check answers for every job, \<open>filterOwnJobs\<close> returns the jobs
  for which it answered true, in their order in the input. When the check fails for some
  job, \<open>filterOwnJobs\<close> returns no jobs and the error of the first failing check, under
  \<open>errors.Wrap\<close> with the message \<open>ownJob\<close> (so with the same cause and classification).
\<close>

theorem C9_filterOwnJobs:
  "((\<forall>j \<in> set jobs. \<exists>ok. ownJob j = Inr ok) \<longrightarrow>
      filterOwnJobs ownJob jobs = Inr (filter (\<lambda>j. ownJob j = Inr True) jobs))
   \<and> ((\<exists>j \<in> set jobs. \<exists>e. ownJob j = Inl e) \<longrightarrow>
      (\<exists>pre j post e. jobs = pre @ j # post \<and>
         (\<forall>p \<in> set pre. \<exists>ok. ownJob p = Inr ok) \<and> ownJob j = Inl e \<and>
         filterOwnJobs ownJob jobs = Inl (Wrap ''ownJob'' e) \<and>
         Cause (Wrap ''ownJob'' e) = Cause e))"
proof (intro conjI impI)
  assume "\<forall>j \<in> set jobs. \<exists>ok. ownJob j = Inr ok"
  then have "firstOwnJobError ownJob jobs = None"
    by (simp add: firstOwnJobError_None)
  then show "filterOwnJobs ownJob jobs = Inr (filter (\<lambda>j. ownJob j = Inr True) jobs)"
    by (simp add: filterOwnJobs_eq)
next
  assume "\<exists>j \<in> set jobs. \<exists>e. ownJob j = Inl e"
  then obtain j0 e0 where "j0 \<in> set jobs" "ownJob j0 = Inl e0" by blast
  then have "\<not> (\<forall>j \<in> set jobs. \<exists>ok. ownJob j = Inr ok)"
    by (metis sum.distinct(1))
  then have "firstOwnJobError ownJob jobs \<noteq> None"
    by (simp only: firstOwnJobError_None not_False_eq_True)
  then obtain e where e: "firstOwnJobError ownJob jobs = Some e" by blast
  from firstOwnJobError_Some [OF e] obtain pre j post where
    "jobs = pre @ j # post" "ownJob j = Inl e" "\<forall>p \<in> set pre. \<exists>ok. ownJob p = Inr ok"
    by blast
  moreover from e have "filterOwnJobs ownJob jobs = Inl (Wrap ''ownJob'' e)"
    by (simp add: filterOwnJobs_eq)
  ultimately show "\<exists>pre j post e. jobs = pre @ j # post \<and>
         (\<forall>p \<in> set pre. \<exists>ok. ownJob p = Inr ok) \<and> ownJob j = Inl e \<and>
         filterOwnJobs ownJob jobs = Inl (Wrap ''ownJob'' e) \<and>
         Cause (Wrap ''ownJob'' e) = Cause e"
    by auto
qed

theorem C9_filterOwnJobs_witness:
  "filterOwnJobs (\<lambda>j. Inr (key j \<noteq> ''0@2''))
      [exJob ''0@1'', exJob ''0@2'', exJob ''0@3'', exJob ''0@2'', exJob ''0@4'']
     = Inr [exJob ''0@1'', exJob ''0@3'', exJob ''0@4'']
   \<and> filterOwnJobs
        (\<lambda>j. if key j = ''0@3'' then Inl (Plain ''ring unavailable'') else Inr (key j \<noteq> ''0@2''))
        [exJob ''0@1'', exJob ''0@2'', exJob ''0@3'', exJob ''0@4'']
     = Inl (Wrap ''ownJob'' (Plain ''ring unavailable''))"
proof -
  let ?own1 = "\<lambda>j. Inr (key j \<noteq> ''0@2'') :: err + bool"
  let ?js1 = "[exJob ''0@1'', exJob ''0@2'', exJob ''0@3'', exJob ''0@2'', exJob ''0@4'']"
  let ?own2 = "\<lambda>j. if key j = ''0@3'' then Inl (Plain ''ring unavailable'')
                    else Inr (key j \<noteq> ''0@2'')"
  let ?js2 = "[exJob ''0@1'', exJob ''0@2'', exJob ''0@3'', exJob ''0@4'']"
  have "filterOwnJobs ?own1 ?js1 = Inr (filter (\<lambda>j. ?own1 j = Inr True) ?js1)"
    using C9_filterOwnJobs [of ?js1 ?own1] by simp
  then have first: "filterOwnJobs ?own1 ?js1 = Inr [exJob ''0@1'', exJob ''0@3'', exJob ''0@4'']"
    by simp
  have "\<exists>j \<in> set ?js2. \<exists>e. ?own2 j = Inl e"
    by simp
  with C9_filterOwnJobs [of ?js2 ?own2] obtain pre j post e where
    sp: "?js2 = pre @ j # post" and pre: "\<forall>p \<in> set pre. \<exists>ok. ?own2 p = Inr ok" and
    j: "?own2 j = Inl e" and r: "filterOwnJobs ?own2 ?js2 = Inl (Wrap ''ownJob'' e)"
    by blast
  from j have "e = Plain ''ring unavailable''"
    by (simp split: if_splits)
  with r first show ?thesis by simp
qed

subsection \<open>The no-compaction-mark filter\<close>

text \<open>
  \<open>NoCompactionMarkFilter.Filter\<close> (lines 1079-1117). \<open>readMarker i\<close> is the answer of
  \<open>metadata.ReadMarker\<close> for block \<open>i\<close>: an error or the parsed mark. The state of the
  jobs is \<open>f.noCompactMarkedMap\<close>, \<open>metas\<close> and the \<open>synced\<close> gauge; a job writes it
  under the mutex, so the jobs take effect one after the other.

  The jobs run under \<open>concurrency.ForEach(ctx, ids, f.concurrency, ...)\<close> (line 1088) of
  the dskit library: it returns \<open>nil\<close> at once for no jobs, starts
  \<open>min(concurrency, len(jobs))\<close> workers, and each worker, for every job it takes from
  the channel, first returns \<open>ctx.Err()\<close> if that is not \<open>nil\<close> and else runs the job,
  returning the job's error if it has one. \<open>ForEach\<close> waits for all workers and returns
  the first error any of them returned.

  In the model \<open>ids\<close> are the jobs in the order in which the workers deal with them,
  \<open>ctx n\<close> is the status of the context that the check before the \<open>n\<close>-th job sees (the
  caller's context, or the group's context once a worker has failed), \<open>workers\<close> counts
  the workers still running, and \<open>firstErr\<close> is the error the group has recorded. A
  worker that returns an error leaves the pool; the jobs go on while a worker is left.
\<close>

type_synonym 'mark filter_state = "(ulid \<rightharpoonup> 'mark) \<times> (ulid \<rightharpoonup> meta) \<times> nat"

text \<open>The group keeps the first error only.\<close>

definition errOnce :: "err option \<Rightarrow> err \<Rightarrow> err option" where
  "errOnce firstErr e = (case firstErr of None \<Rightarrow> Some e | Some x \<Rightarrow> Some x)"

fun filterJobs ::
  "(ulid \<Rightarrow> err + 'mark) \<Rightarrow> bool \<Rightarrow> (nat \<Rightarrow> ctx_status) \<Rightarrow> nat \<Rightarrow> nat \<Rightarrow> ulid list
     \<Rightarrow> err option \<Rightarrow> 'mark filter_state \<Rightarrow> err option \<times> 'mark filter_state" where
  "filterJobs readMarker removeNoCompactBlocks ctx n workers [] firstErr st = (firstErr, st)"
| "filterJobs readMarker removeNoCompactBlocks ctx n workers (i # ids) firstErr
     (noCompactMarkedMap, metas, synced) =
     (if workers = 0 then (firstErr, (noCompactMarkedMap, metas, synced))
      else
        (case ctxErr (ctx n) of
           Some e \<Rightarrow>
             filterJobs readMarker removeNoCompactBlocks ctx (Suc n) (workers - 1) ids
               (errOnce firstErr e) (noCompactMarkedMap, metas, synced)
         | None \<Rightarrow>
             (case readMarker i of
                Inl e \<Rightarrow>
                  if Cause e = ErrorMarkerNotFound then
                    filterJobs readMarker removeNoCompactBlocks ctx (Suc n) workers ids
                      firstErr (noCompactMarkedMap, metas, synced)
                  else if Cause e = ErrorUnmarshalMarker then
                    filterJobs readMarker removeNoCompactBlocks ctx (Suc n) workers ids
                      firstErr (noCompactMarkedMap, metas, synced)
                  else
                    filterJobs readMarker removeNoCompactBlocks ctx (Suc n) (workers - 1) ids
                      (errOnce firstErr e) (noCompactMarkedMap, metas, synced)
              | Inr m \<Rightarrow>
                  filterJobs readMarker removeNoCompactBlocks ctx (Suc n) workers ids firstErr
                    (noCompactMarkedMap(i \<mapsto> m),
                     if removeNoCompactBlocks then metas(i := None) else metas,
                     synced + 1))))"

text \<open>\<open>errors.Wrap\<close> returns \<open>nil\<close> for a \<open>nil\<close> error.\<close>

definition errorsWrap :: "err option \<Rightarrow> string \<Rightarrow> err option" where
  "errorsWrap e msg = (case e of None \<Rightarrow> None | Some x \<Rightarrow> Some (Wrap msg x))"

text \<open>
  \<open>Filter\<close>: a fresh \<open>noCompactMarkedMap\<close>, the jobs with \<open>min(concurrency, len(ids))\<close>
  workers (none when \<open>concurrency\<close> is not positive), and the error under \<open>errors.Wrap\<close>.
\<close>

definition Filter ::
  "(ulid \<Rightarrow> err + 'mark) \<Rightarrow> bool \<Rightarrow> (nat \<Rightarrow> ctx_status) \<Rightarrow> int \<Rightarrow> ulid list
     \<Rightarrow> (ulid \<rightharpoonup> meta) \<Rightarrow> nat \<Rightarrow> err option \<times> 'mark filter_state" where
  "Filter readMarker removeNoCompactBlocks ctx concurrency ids metas synced =
     (case filterJobs readMarker removeNoCompactBlocks ctx 0
             (nat (min concurrency (int (length ids)))) ids None (Map.empty, metas, synced) of
        (e, st) \<Rightarrow> (errorsWrap e ''filter blocks marked for no compaction'', st))"

definition markerUnusable :: "(ulid \<Rightarrow> err + 'mark) \<Rightarrow> ulid \<Rightarrow> bool" where
  "markerUnusable readMarker i =
     (case readMarker i of
        Inl e \<Rightarrow> Cause e = ErrorMarkerNotFound \<or> Cause e = ErrorUnmarshalMarker
      | Inr m \<Rightarrow> False)"

lemma ctxErr_cases: "ctxErr c = Some e \<Longrightarrow> e = ContextCanceled \<or> e = ContextDeadlineExceeded"
  by (cases c) auto

lemma filterJobs_unmarked:
  "filterJobs readMarker rm ctx n w ids fe (marked, metas, synced)
     = (r, marked', metas', synced') \<Longrightarrow>
   markerUnusable readMarker i \<Longrightarrow>
     marked' i = marked i \<and> metas' i = metas i"
proof (induction ids arbitrary: n w fe marked metas synced)
  case Nil
  then show ?case by simp
next
  case (Cons a ids)
  show ?case
  proof (cases "w = 0")
    case True
    with Cons.prems(1) show ?thesis by simp
  next
    case False
    note w = this
    show ?thesis
    proof (cases "ctxErr (ctx n)")
      case (Some e)
      with w Cons.prems(1) Cons.IH [OF _ Cons.prems(2)] show ?thesis by simp
    next
      case None
      note live = this
      show ?thesis
      proof (cases "readMarker a")
        case (Inl e)
        with w live Cons.prems(1) Cons.IH [OF _ Cons.prems(2)] show ?thesis
          by (simp split: if_splits)
      next
        case (Inr m)
        with Cons.prems(2) have ne: "a \<noteq> i"
          by (auto simp: markerUnusable_def)
        from Inr w live Cons.prems(1) have
          "filterJobs readMarker rm ctx (Suc n) w ids fe
             (marked(a \<mapsto> m), if rm then metas(a := None) else metas, synced + 1)
           = (r, marked', metas', synced')"
          by simp
        from Cons.IH [OF this Cons.prems(2)] ne show ?thesis by simp
      qed
    qed
  qed
qed

lemma filterJobs_error:
  "filterJobs readMarker rm ctx n w ids fe st = (Some x, st') \<Longrightarrow>
     fe = Some x \<or> (\<exists>k. ctxErr (ctx k) = Some x) \<or>
     (\<exists>j \<in> set ids. readMarker j = Inl x \<and>
        Cause x \<noteq> ErrorMarkerNotFound \<and> Cause x \<noteq> ErrorUnmarshalMarker)"
proof (induction ids arbitrary: n w fe st)
  case Nil
  then show ?case by simp
next
  case (Cons a ids)
  obtain marked metas synced where st: "st = (marked, metas, synced)"
    by (cases st) auto
  show ?case
  proof (cases "w = 0")
    case True
    with Cons.prems st show ?thesis by simp
  next
    case False
    note w = this
    show ?thesis
    proof (cases "ctxErr (ctx n)")
      case (Some e)
      with w st Cons.prems have
        "filterJobs readMarker rm ctx (Suc n) (w - 1) ids (errOnce fe e) st = (Some x, st')"
        by simp
      from Cons.IH [OF this] Some show ?thesis
        by (auto simp: errOnce_def split: option.splits)
    next
      case None
      note live = this
      show ?thesis
      proof (cases "readMarker a")
        case (Inl e)
        show ?thesis
        proof (cases "Cause e = ErrorMarkerNotFound \<or> Cause e = ErrorUnmarshalMarker")
          case True
          with Inl w live st Cons.prems have
            "filterJobs readMarker rm ctx (Suc n) w ids fe st = (Some x, st')"
            by auto
          from Cons.IH [OF this] show ?thesis by auto
        next
          case False
          with Inl w live st Cons.prems have
            "filterJobs readMarker rm ctx (Suc n) (w - 1) ids (errOnce fe e) st = (Some x, st')"
            by auto
          from Cons.IH [OF this] Inl False show ?thesis
            by (auto simp: errOnce_def split: option.splits)
        qed
      next
        case (Inr m)
        with w live st Cons.prems have
          "filterJobs readMarker rm ctx (Suc n) w ids fe
             (marked(a \<mapsto> m), if rm then metas(a := None) else metas, synced + 1)
           = (Some x, st')"
          by simp
        from Cons.IH [OF this] show ?thesis by auto
      qed
    qed
  qed
qed

lemma filterJobs_no_error:
  "\<forall>k. ctx k = CtxLive \<Longrightarrow>
   \<forall>j \<in> set ids. markerUnusable readMarker j \<or> (\<exists>m. readMarker j = Inr m) \<Longrightarrow>
     fst (filterJobs readMarker rm ctx n w ids fe st) = fe"
proof (induction ids arbitrary: n w fe st)
  case Nil
  then show ?case by simp
next
  case (Cons a ids)
  obtain marked metas synced where st: "st = (marked, metas, synced)"
    by (cases st) auto
  from Cons.prems have rest:
    "\<forall>j \<in> set ids. markerUnusable readMarker j \<or> (\<exists>m. readMarker j = Inr m)"
    by simp
  from Cons.prems(1) have live: "ctxErr (ctx n) = None" by simp
  from Cons.prems(2) have "markerUnusable readMarker a \<or> (\<exists>m. readMarker a = Inr m)"
    by simp
  then show ?case
    using Cons.IH [OF Cons.prems(1) rest] st live
    by (auto simp: markerUnusable_def split: sum.splits)
qed

text \<open>
  C7. A block whose no-compact marker is absent or does not unmarshal is treated as
  unmarked by \<open>Filter\<close>, whatever else happens in the call: it is not in
  \<open>NoCompactMarkedBlocks\<close> afterwards and its entry in the meta map is untouched. It does
  not make \<open>Filter\<close> fail: an error that \<open>Filter\<close> returns never has the cause
  marker-not-found or unmarshal; it is, wrapped, either \<open>ctx.Err()\<close> of a cancelled or
  expired context or the read error of a block whose marker failed to read for another
  reason. When the context stays live and every marker is absent, unparseable or
  readable, \<open>Filter\<close> returns no error.
\<close>

theorem C7_unusable_marker_is_ignored:
  assumes "Filter readMarker removeNoCompactBlocks ctx concurrency ids metas synced
             = (r, noCompactMarkedMap', metas', synced')"
  shows "(\<forall>i. markerUnusable readMarker i \<longrightarrow>
            noCompactMarkedMap' i = None \<and> metas' i = metas i)
     \<and> (\<forall>x. r = Some x \<longrightarrow>
          Cause x \<noteq> ErrorMarkerNotFound \<and> Cause x \<noteq> ErrorUnmarshalMarker \<and>
          (\<exists>e. x = Wrap ''filter blocks marked for no compaction'' e \<and>
             ((\<exists>k. ctxErr (ctx k) = Some e) \<or>
              (\<exists>j \<in> set ids. readMarker j = Inl e \<and> \<not> markerUnusable readMarker j))))
     \<and> ((\<forall>k. ctx k = CtxLive) \<and>
          (\<forall>j \<in> set ids. markerUnusable readMarker j \<or> (\<exists>m. readMarker j = Inr m)) \<longrightarrow>
          r = None)"
proof -
  let ?w = "nat (min concurrency (int (length ids)))"
  obtain r0 where
    loop: "filterJobs readMarker removeNoCompactBlocks ctx 0 ?w ids None (Map.empty, metas, synced)
             = (r0, noCompactMarkedMap', metas', synced')" and
    r: "r = errorsWrap r0 ''filter blocks marked for no compaction''"
    using assms by (auto simp: Filter_def split: prod.splits)
  have a: "\<forall>i. markerUnusable readMarker i \<longrightarrow>
            noCompactMarkedMap' i = None \<and> metas' i = metas i"
    using filterJobs_unmarked [OF loop] by simp
  have b: "\<forall>x. r = Some x \<longrightarrow>
          Cause x \<noteq> ErrorMarkerNotFound \<and> Cause x \<noteq> ErrorUnmarshalMarker \<and>
          (\<exists>e. x = Wrap ''filter blocks marked for no compaction'' e \<and>
             ((\<exists>k. ctxErr (ctx k) = Some e) \<or>
              (\<exists>j \<in> set ids. readMarker j = Inl e \<and> \<not> markerUnusable readMarker j)))"
  proof (intro allI impI)
    fix x assume "r = Some x"
    with r obtain e where e: "r0 = Some e" "x = Wrap ''filter blocks marked for no compaction'' e"
      by (auto simp: errorsWrap_def split: option.splits)
    from filterJobs_error [OF loop [unfolded e(1)]] have
      src: "(\<exists>k. ctxErr (ctx k) = Some e) \<or>
        (\<exists>j \<in> set ids. readMarker j = Inl e \<and>
           Cause e \<noteq> ErrorMarkerNotFound \<and> Cause e \<noteq> ErrorUnmarshalMarker)"
      by simp
    then have cause: "Cause e \<noteq> ErrorMarkerNotFound \<and> Cause e \<noteq> ErrorUnmarshalMarker"
      by (auto dest: ctxErr_cases)
    from src have "(\<exists>k. ctxErr (ctx k) = Some e) \<or>
        (\<exists>j \<in> set ids. readMarker j = Inl e \<and> \<not> markerUnusable readMarker j)"
      by (auto simp: markerUnusable_def)
    with cause e(2)
    show "Cause x \<noteq> ErrorMarkerNotFound \<and> Cause x \<noteq> ErrorUnmarshalMarker \<and>
          (\<exists>e. x = Wrap ''filter blocks marked for no compaction'' e \<and>
             ((\<exists>k. ctxErr (ctx k) = Some e) \<or>
              (\<exists>j \<in> set ids. readMarker j = Inl e \<and> \<not> markerUnusable readMarker j)))"
      by simp
  qed
  have c: "(\<forall>k. ctx k = CtxLive) \<and>
          (\<forall>j \<in> set ids. markerUnusable readMarker j \<or> (\<exists>m. readMarker j = Inr m)) \<longrightarrow>
          r = None"
  proof
    assume h: "(\<forall>k. ctx k = CtxLive) \<and>
          (\<forall>j \<in> set ids. markerUnusable readMarker j \<or> (\<exists>m. readMarker j = Inr m))"
    then have "fst (filterJobs readMarker removeNoCompactBlocks ctx 0 ?w ids None
                      (Map.empty, metas, synced)) = None"
      by (intro filterJobs_no_error) simp_all
    with loop have "r0 = None" by simp
    with r show "r = None" by (simp add: errorsWrap_def)
  qed
  from a b c show ?thesis by (intro conjI)
qed

abbreviation exReadMarker :: "ulid \<Rightarrow> err + string" where
  "exReadMarker \<equiv> \<lambda>i.
     if i = 1 then Inl (Wrap ''get file: 1/no-compact-mark.json'' ErrorMarkerNotFound)
     else if i = 2 then Inl (Wrap ''read file: 2/no-compact-mark.json'' ErrorUnmarshalMarker)
     else Inr ''manual''"

theorem C7_unusable_marker_witness:
  "markerUnusable exReadMarker 1 \<and> markerUnusable exReadMarker 2
   \<and> fst (Filter exReadMarker True (\<lambda>n. CtxLive) 2 [1, 2, 3] (blocks exSyncer) 0) = None
   \<and> fst (snd (Filter exReadMarker True (\<lambda>n. CtxLive) 2 [1, 2, 3] (blocks exSyncer) 0)) 1 = None
   \<and> fst (snd (Filter exReadMarker True (\<lambda>n. CtxLive) 2 [1, 2, 3] (blocks exSyncer) 0)) 2 = None
   \<and> fst (snd (snd (Filter exReadMarker True (\<lambda>n. CtxLive) 2 [1, 2, 3] (blocks exSyncer) 0))) 1
       = Some (exMeta 1 100)
   \<and> fst (snd (snd (Filter exReadMarker True (\<lambda>n. CtxLive) 2 [1, 2, 3] (blocks exSyncer) 0))) 2
       = Some (exMeta 2 100)
   \<and> fst (snd (Filter exReadMarker True (\<lambda>n. CtxLive) 2 [1, 2, 3] (blocks exSyncer) 0)) 3
       = Some ''manual''
   \<and> fst (snd (snd (Filter exReadMarker True (\<lambda>n. CtxLive) 2 [1, 2, 3] (blocks exSyncer) 0))) 3
       = None
   \<and> fst (Filter exReadMarker True (\<lambda>n. CtxCanceled) 2 [1, 2, 3] (blocks exSyncer) 0)
       = Some (Wrap ''filter blocks marked for no compaction'' ContextCanceled)
   \<and> fst (snd (Filter exReadMarker True (\<lambda>n. CtxCanceled) 2 [1, 2, 3] (blocks exSyncer) 0)) 1
       = None
   \<and> fst (snd (snd (Filter exReadMarker True (\<lambda>n. CtxCanceled) 2 [1, 2, 3] (blocks exSyncer) 0))) 1
       = Some (exMeta 1 100)"
proof -
  let ?run = "Filter exReadMarker True (\<lambda>n. CtxLive) 2 [1, 2, 3] (blocks exSyncer) 0"
  let ?stop = "Filter exReadMarker True (\<lambda>n. CtxCanceled) 2 [1, 2, 3] (blocks exSyncer) 0"
  have run: "?run = (fst ?run, fst (snd ?run), fst (snd (snd ?run)), snd (snd (snd ?run)))"
    by simp
  have stop: "?stop = (fst ?stop, fst (snd ?stop), fst (snd (snd ?stop)), snd (snd (snd ?stop)))"
    by simp
  have u: "markerUnusable exReadMarker 1" "markerUnusable exReadMarker 2"
    by (simp_all add: markerUnusable_def)
  have all: "(\<forall>k. (\<lambda>n. CtxLive) k = CtxLive) \<and>
      (\<forall>j \<in> set [1, 2, 3]. markerUnusable exReadMarker j \<or> (\<exists>m. exReadMarker j = Inr m))"
    by (simp add: markerUnusable_def)
  from C7_unusable_marker_is_ignored [OF run] u all
  have live: "fst ?run = None"
    "fst (snd ?run) 1 = None" "fst (snd ?run) 2 = None"
    "fst (snd (snd ?run)) 1 = blocks exSyncer 1" "fst (snd (snd ?run)) 2 = blocks exSyncer 2"
    by blast+
  have marked: "fst (snd ?run) 3 = Some ''manual''" "fst (snd (snd ?run)) 3 = None"
    by (simp_all add: Filter_def)
  from C7_unusable_marker_is_ignored [OF stop] u
  have cancelled: "fst (snd ?stop) 1 = None" "fst (snd (snd ?stop)) 1 = blocks exSyncer 1"
    by blast+
  have err: "fst ?stop = Some (Wrap ''filter blocks marked for no compaction'' ContextCanceled)"
    by (simp add: Filter_def errOnce_def errorsWrap_def)
  from u live marked cancelled err show ?thesis by simp
qed

subsection \<open>Running one compaction job\<close>

text \<open>
  The answers of the collaborators of \<open>runCompactionJob\<close> (lines 366-560) and
  \<open>deleteBlock\<close> (lines 744-757): the local disk
  (\<open>os.MkdirAll\<close>, \<open>os.RemoveAll\<close>, \<open>os.Remove\<close>), the planner, the bucket
  (\<open>block.Download\<close>, \<open>block.Upload\<close>, \<open>block.MarkForDeletion\<close>), the index checks and
  the TSDB compactor. An answer about a block is a function of the block's ID; \<open>None\<close> is
  a \<open>nil\<close> error. Block directories are determined by the job and the block ID, so the
  model passes IDs where the code passes paths.
\<close>

record index_stats =
  criticalErr :: "err option"
  outOfOrderChunksErr :: "err option"
  issue347OutsideChunksErr :: "err option"
  prometheusIssue5372Err :: "err option"

record env =
  osMkdirAll :: "err option"
  plannerPlan :: "meta list \<Rightarrow> err + meta list"
  blockDownload :: "ulid \<Rightarrow> err option"
  blockGatherIndexHealthStats :: "ulid \<Rightarrow> err + index_stats"
  compCompact :: "ulid list \<Rightarrow> err + ulid"
  compCompactWithSplitting :: "ulid list \<Rightarrow> 64 word \<Rightarrow> err + ulid list"
  metadataInjectThanos :: "ulid \<Rightarrow> err option"
  osRemoveTombstones :: "ulid \<Rightarrow> err option"
  blockVerifyIndex :: "ulid \<Rightarrow> err option"
  blockUpload :: "ulid \<Rightarrow> err option"
  osRemoveAll :: "ulid \<Rightarrow> err option"
  blockMarkForDeletion :: "ulid \<Rightarrow> err option"
  osRemoveAllSubDir :: "err option"

text \<open>
  What the job does to the outside, in order: each call on a block with its outcome
  (\<open>True\<close> is success), and the removal of the job's work directory on a clean exit.
\<close>

datatype op =
    OpDownload
  | OpGatherIndexHealthStats
  | OpInjectThanos
  | OpRemoveTombstones
  | OpVerifyIndex
  | OpUpload
  | OpRemoveAll
  | OpMarkForDeletion

datatype event = Ev op ulid bool | EvRemoveAllSubDir bool

text \<open>
  \<open>concurrency.ForEach\<close> returns after every worker has returned. The model runs the
  jobs in slice order and stops at the first error, which it returns.
\<close>

fun forEach :: "('a \<Rightarrow> event list \<times> err option) \<Rightarrow> 'a list \<Rightarrow> event list \<times> err option" where
  "forEach jobFunc [] = ([], None)"
| "forEach jobFunc (x # xs) =
     (case jobFunc x of
        (tr, Some e) \<Rightarrow> (tr, Some e)
      | (tr, None) \<Rightarrow> (case forEach jobFunc xs of (tr', r) \<Rightarrow> (tr @ tr', r)))"

fun hasNonZeroULIDs :: "ulid list \<Rightarrow> bool" where
  "hasNonZeroULIDs [] = False"
| "hasNonZeroULIDs (i # ids) = (if i \<noteq> zeroULID then True else hasNonZeroULIDs ids)"

definition deleteBlock :: "env \<Rightarrow> ulid \<Rightarrow> event list \<times> err option" where
  "deleteBlock ev i =
     (case osRemoveAll ev i of
        Some e \<Rightarrow> ([Ev OpRemoveAll i False], Some (Wrap ''remove old block dir %s'' e))
      | None \<Rightarrow>
          (case blockMarkForDeletion ev i of
             Some e \<Rightarrow>
               ([Ev OpRemoveAll i True, Ev OpMarkForDeletion i False],
                Some (Wrap ''mark block %s for deletion from bucket'' e))
           | None \<Rightarrow> ([Ev OpRemoveAll i True, Ev OpMarkForDeletion i True], None)))"

text \<open>The job function of the first \<open>ForEach\<close>: download one input block and check its index.\<close>

definition classifyStats :: "index_stats \<Rightarrow> meta \<Rightarrow> err option" where
  "classifyStats stats m =
     (case criticalErr stats of
        Some e \<Rightarrow>
          Some (halt (Wrap ''block with not healthy index found %s; Compaction level %v; Labels: %v'' e))
      | None \<Rightarrow>
     (case outOfOrderChunksErr stats of
        Some e \<Rightarrow>
          Some (outOfOrderChunkError
            (Wrap ''blocks with out-of-order chunks are dropped from compaction:  %s'' e) (ULID m))
      | None \<Rightarrow>
     (case issue347OutsideChunksErr stats of
        Some e \<Rightarrow> Some (issue347Error (Wrap ''invalid, but reparable block %s'' e) (ULID m))
      | None \<Rightarrow>
     (case prometheusIssue5372Err stats of
        Some e \<Rightarrow> Some (Wrap ''block id %s'' e)
      | None \<Rightarrow> None))))"

definition downloadAndVerify :: "env \<Rightarrow> meta \<Rightarrow> event list \<times> err option" where
  "downloadAndVerify ev m =
     (case blockDownload ev (ULID m) of
        Some e \<Rightarrow> ([Ev OpDownload (ULID m) False], Some (retry (Wrap ''download block %s'' e)))
      | None \<Rightarrow>
          (case blockGatherIndexHealthStats ev (ULID m) of
             Inl e \<Rightarrow>
               ([Ev OpDownload (ULID m) True, Ev OpGatherIndexHealthStats (ULID m) False],
                Some (Wrap ''gather index issues for block %s'' e))
           | Inr stats \<Rightarrow>
               ([Ev OpDownload (ULID m) True, Ev OpGatherIndexHealthStats (ULID m) True],
                classifyStats stats m)))"

text \<open>
  The job function of the second \<open>ForEach\<close>, on one output block: skip the zero ULID;
  otherwise finalize (\<open>metadata.InjectThanos\<close>), remove the tombstones file, verify the
  index, upload. The external labels handed to \<open>InjectThanos\<close> are not part of the model.
\<close>

definition uploadBlock :: "env \<Rightarrow> nat \<times> ulid \<Rightarrow> event list \<times> err option" where
  "uploadBlock ev j =
     (let compID = snd j in
      if compID = zeroULID then ([], None)
      else
        (case metadataInjectThanos ev compID of
           Some e \<Rightarrow>
             ([Ev OpInjectThanos compID False], Some (Wrap ''failed to finalize the block %s'' e))
         | None \<Rightarrow>
        (case osRemoveTombstones ev compID of
           Some e \<Rightarrow>
             ([Ev OpInjectThanos compID True, Ev OpRemoveTombstones compID False],
              Some (Wrap ''remove tombstones'' e))
         | None \<Rightarrow>
        (case blockVerifyIndex ev compID of
           Some e \<Rightarrow>
             ([Ev OpInjectThanos compID True, Ev OpRemoveTombstones compID True,
               Ev OpVerifyIndex compID False],
              Some (halt (Wrap ''invalid result block %s'' e)))
         | None \<Rightarrow>
        (case blockUpload ev compID of
           Some e \<Rightarrow>
             ([Ev OpInjectThanos compID True, Ev OpRemoveTombstones compID True,
               Ev OpVerifyIndex compID True, Ev OpUpload compID False],
              Some (retry (Wrap ''upload of %s failed'' e)))
         | None \<Rightarrow>
             ([Ev OpInjectThanos compID True, Ev OpRemoveTombstones compID True,
               Ev OpVerifyIndex compID True, Ev OpUpload compID True],
              None))))))"

text \<open>\<open>convertSliceOfUlidsToSliceOfInterfaces\<close>: each ID with its index.\<close>

definition convertSliceOfUlids :: "ulid list \<Rightarrow> (nat \<times> ulid) list" where
  "convertSliceOfUlids input = zip [0..<length input] input"

text \<open>
  The merge step: \<open>CompactWithSplitting\<close> for a splitting job, else \<open>Compact\<close>, whose
  single ID becomes a one-element slice.
\<close>

definition mergeStep :: "env \<Rightarrow> job \<Rightarrow> meta list \<Rightarrow> err + ulid list" where
  "mergeStep ev jb toCompact =
     (if useSplitting jb then
        compCompactWithSplitting ev (map ULID toCompact) (ucast (splitNumShards jb))
      else
        (case compCompact ev (map ULID toCompact) of
           Inl e \<Rightarrow> Inl e
         | Inr compID \<Rightarrow> Inr [compID]))"

text \<open>
  The loop of the empty-result branch: \<open>deleteBlock\<close> on every planned block with no
  samples; a failure is logged and the loop goes on.
\<close>

fun deleteEmptyBlocks :: "env \<Rightarrow> meta list \<Rightarrow> event list" where
  "deleteEmptyBlocks ev [] = []"
| "deleteEmptyBlocks ev (m # ms) =
     (if NumSamples m = 0 then fst (deleteBlock ev (ULID m)) else []) @ deleteEmptyBlocks ev ms"

text \<open>The last loop: \<open>deleteBlock\<close> on every planned block, returning at the first failure.\<close>

fun deleteCompactedBlocks :: "env \<Rightarrow> meta list \<Rightarrow> event list \<times> err option" where
  "deleteCompactedBlocks ev [] = ([], None)"
| "deleteCompactedBlocks ev (m # ms) =
     (case deleteBlock ev (ULID m) of
        (tr, Some e) \<Rightarrow> (tr, Some (retry (Wrap ''mark old block for deletion from bucket'' e)))
      | (tr, None) \<Rightarrow> (case deleteCompactedBlocks ev ms of (tr', r) \<Rightarrow> (tr @ tr', r)))"

text \<open>
  The deferred function: on a return without error the work directory is removed (a
  failure of the removal is logged only); on an error return it is left in place.
\<close>

definition deferred :: "env \<Rightarrow> err option \<Rightarrow> event list" where
  "deferred ev rerr =
     (if rerr \<noteq> None then [] else [EvRemoveAllSubDir (osRemoveAllSubDir ev = None)])"

text \<open>
  The body of \<open>runCompactionJob\<close>: trace and \<open>(shouldRerun, compIDs, rerr)\<close>. Every
  error return of the source is \<open>(false, nil, err)\<close>.
\<close>

definition runCompactionJobBody ::
  "env \<Rightarrow> job \<Rightarrow> event list \<times> bool \<times> ulid list \<times> err option" where
  "runCompactionJobBody ev jb =
     (case osMkdirAll ev of
        Some e \<Rightarrow> ([], False, [], Some (Wrap ''create compaction job dir'' e))
      | None \<Rightarrow>
     (case plannerPlan ev (metasByMinTime jb) of
        Inl e \<Rightarrow> ([], False, [], Some (Wrap ''plan compaction'' e))
      | Inr toCompact \<Rightarrow>
          if length toCompact = 0 then ([], False, [], None)
          else
     (case forEach (downloadAndVerify ev) toCompact of
        (tr1, Some e) \<Rightarrow> (tr1, False, [], Some e)
      | (tr1, None) \<Rightarrow>
     (case mergeStep ev jb toCompact of
        Inl e \<Rightarrow> (tr1, False, [], Some (halt (Wrap ''compact blocks %v'' e)))
      | Inr compIDs \<Rightarrow>
          if \<not> hasNonZeroULIDs compIDs then
            (tr1 @ deleteEmptyBlocks ev toCompact, True, [], None)
          else
     (case forEach (uploadBlock ev) (convertSliceOfUlids compIDs) of
        (tr2, Some e) \<Rightarrow> (tr1 @ tr2, False, [], Some e)
      | (tr2, None) \<Rightarrow>
     (case deleteCompactedBlocks ev toCompact of
        (tr3, Some e) \<Rightarrow> (tr1 @ tr2 @ tr3, False, [], Some e)
      | (tr3, None) \<Rightarrow> (tr1 @ tr2 @ tr3, True, compIDs, None)))))))"

definition runCompactionJob ::
  "env \<Rightarrow> job \<Rightarrow> event list \<times> bool \<times> ulid list \<times> err option" where
  "runCompactionJob ev jb =
     (case runCompactionJobBody ev jb of
        (tr, shouldRerun, compIDs, rerr) \<Rightarrow> (tr @ deferred ev rerr, shouldRerun, compIDs, rerr))"


subsection \<open>Running one compaction job: lemmas on the trace\<close>

text \<open>The operation of an event and its outcome.\<close>

fun opOf :: "event \<Rightarrow> op option" where
  "opOf (Ev p i b) = Some p"
| "opOf (EvRemoveAllSubDir b) = None"

fun succeeded :: "event \<Rightarrow> bool" where
  "succeeded (Ev p i b) = b"
| "succeeded (EvRemoveAllSubDir b) = b"

lemma hasNonZeroULIDs_iff: "hasNonZeroULIDs ids \<longleftrightarrow> (\<exists>i \<in> set ids. i \<noteq> zeroULID)"
  by (induction ids) auto

lemma forEach_events:
  "set (fst (forEach jobFunc xs)) \<subseteq> (\<Union>x \<in> set xs. set (fst (jobFunc x)))"
proof (induction xs)
  case Nil
  then show ?case by simp
next
  case (Cons x xs)
  obtain tr r where fx: "jobFunc x = (tr, r)" by (cases "jobFunc x")
  obtain tr' r' where fxs: "forEach jobFunc xs = (tr', r')" by (cases "forEach jobFunc xs")
  have "set (fst (forEach jobFunc (x # xs))) \<subseteq> set tr \<union> set tr'"
    using fx fxs by (cases r) auto
  with Cons.IH fx fxs show ?case by auto
qed

lemma forEach_ok:
  "forEach jobFunc xs = (tr, None) \<Longrightarrow> x \<in> set xs \<Longrightarrow>
     snd (jobFunc x) = None \<and> set (fst (jobFunc x)) \<subseteq> set tr"
proof (induction xs arbitrary: tr)
  case Nil
  then show ?case by simp
next
  case (Cons a xs)
  obtain ta ra where fa: "jobFunc a = (ta, ra)" by (cases "jobFunc a")
  obtain tr' r' where fxs: "forEach jobFunc xs = (tr', r')" by (cases "forEach jobFunc xs")
  from Cons.prems(1) fa fxs have ra: "ra = None" and r': "r' = None" and tr: "tr = ta @ tr'"
    by (cases ra; simp)+
  show ?case
  proof (cases "x = a")
    case True
    with fa ra tr show ?thesis by simp
  next
    case False
    with Cons.prems(2) have "x \<in> set xs" by simp
    from Cons.IH [OF fxs [unfolded r'] this] tr show ?thesis by auto
  qed
qed

lemma forEach_failed:
  "forEach jobFunc xs = (tr, Some e) \<Longrightarrow>
     \<exists>x \<in> set xs. snd (jobFunc x) = Some e"
proof (induction xs arbitrary: tr)
  case Nil
  then show ?case by simp
next
  case (Cons a xs)
  obtain ta ra where fa: "jobFunc a = (ta, ra)" by (cases "jobFunc a")
  obtain tr' r' where fxs: "forEach jobFunc xs = (tr', r')" by (cases "forEach jobFunc xs")
  show ?case
  proof (cases ra)
    case None
    with Cons.prems fa fxs have "r' = Some e" by simp
    with fxs Cons.IH show ?thesis by auto
  next
    case (Some e')
    with Cons.prems fa have "e' = e" by simp
    with Some fa show ?thesis by simp
  qed
qed

lemma deleteBlock_events:
  "e \<in> set (fst (deleteBlock ev i)) \<Longrightarrow>
     (\<exists>b. e = Ev OpRemoveAll i b) \<or> (\<exists>b. e = Ev OpMarkForDeletion i b \<and> osRemoveAll ev i = None)"
  by (auto simp: deleteBlock_def split: option.splits)

lemma deleteBlock_mark_iff:
  "(\<exists>b. Ev OpMarkForDeletion j b \<in> set (fst (deleteBlock ev i))) \<longleftrightarrow>
     (j = i \<and> osRemoveAll ev i = None)"
  by (auto simp: deleteBlock_def split: option.splits)

lemma deleteEmptyBlocks_mark_iff:
  "(\<exists>b. Ev OpMarkForDeletion j b \<in> set (deleteEmptyBlocks ev ms)) \<longleftrightarrow>
     (\<exists>m \<in> set ms. ULID m = j \<and> NumSamples m = 0 \<and> osRemoveAll ev j = None)"
proof (induction ms)
  case Nil
  then show ?case by simp
next
  case (Cons m ms)
  have "(\<exists>b. Ev OpMarkForDeletion j b \<in> set (deleteEmptyBlocks ev (m # ms))) \<longleftrightarrow>
      (NumSamples m = 0 \<and> (\<exists>b. Ev OpMarkForDeletion j b \<in> set (fst (deleteBlock ev (ULID m)))))
      \<or> (\<exists>b. Ev OpMarkForDeletion j b \<in> set (deleteEmptyBlocks ev ms))"
    by auto
  then show ?case
    unfolding Cons.IH deleteBlock_mark_iff by auto
qed

lemma deleteEmptyBlocks_events:
  "e \<in> set (deleteEmptyBlocks ev ms) \<Longrightarrow> opOf e = Some OpRemoveAll \<or> opOf e = Some OpMarkForDeletion"
  by (induction ms) (auto dest!: deleteBlock_events split: if_splits)

lemma deleteCompactedBlocks_events:
  "e \<in> set (fst (deleteCompactedBlocks ev ms)) \<Longrightarrow>
     (\<exists>m \<in> set ms. (\<exists>b. e = Ev OpRemoveAll (ULID m) b) \<or> (\<exists>b. e = Ev OpMarkForDeletion (ULID m) b))"
proof (induction ms)
  case Nil
  then show ?case by simp
next
  case (Cons m ms)
  obtain tr r where d: "deleteBlock ev (ULID m) = (tr, r)" by (cases "deleteBlock ev (ULID m)")
  obtain tr' r' where ds: "deleteCompactedBlocks ev ms = (tr', r')"
    by (cases "deleteCompactedBlocks ev ms")
  from Cons.prems d ds have "e \<in> set tr \<or> e \<in> set tr'"
    by (cases r) auto
  then show ?case
  proof
    assume "e \<in> set tr"
    with d deleteBlock_events [of e ev "ULID m"] show ?thesis by auto
  next
    assume "e \<in> set tr'"
    with ds Cons.IH show ?thesis by auto
  qed
qed

lemma downloadAndVerify_events:
  "e \<in> set (fst (downloadAndVerify ev m)) \<Longrightarrow>
     opOf e = Some OpDownload \<or> opOf e = Some OpGatherIndexHealthStats"
  by (auto simp: downloadAndVerify_def split: option.splits sum.splits)

lemma uploadBlock_events:
  "e \<in> set (fst (uploadBlock ev j)) \<Longrightarrow>
     opOf e \<in> {Some OpInjectThanos, Some OpRemoveTombstones, Some OpVerifyIndex, Some OpUpload}"
  by (auto simp: uploadBlock_def Let_def split: option.splits if_splits)

lemma uploadBlock_ok:
  "snd (uploadBlock ev j) = None \<Longrightarrow> snd j \<noteq> zeroULID \<Longrightarrow>
     Ev OpInjectThanos (snd j) True \<in> set (fst (uploadBlock ev j)) \<and>
     Ev OpRemoveTombstones (snd j) True \<in> set (fst (uploadBlock ev j)) \<and>
     Ev OpVerifyIndex (snd j) True \<in> set (fst (uploadBlock ev j)) \<and>
     Ev OpUpload (snd j) True \<in> set (fst (uploadBlock ev j))"
  by (auto simp: uploadBlock_def Let_def split: option.splits if_splits)

lemma uploadBlock_ok_succeeded:
  "snd (uploadBlock ev j) = None \<Longrightarrow> e \<in> set (fst (uploadBlock ev j)) \<Longrightarrow> succeeded e"
  by (auto simp: uploadBlock_def Let_def split: option.splits if_splits)

lemma split_after_prefix:
  "xs @ ys = pre @ e # post \<Longrightarrow> e \<notin> set xs \<Longrightarrow> \<exists>pre'. pre = xs @ pre'"
  by (auto simp: append_eq_append_conv2 append_eq_Cons_conv)


text \<open>A trace of downloads and index health checks only.\<close>

definition inputOnly :: "event list \<Rightarrow> bool" where
  "inputOnly tr = (\<forall>e \<in> set tr. opOf e = Some OpDownload \<or> opOf e = Some OpGatherIndexHealthStats)"

lemma inputOnly_Nil: "inputOnly []"
  by (simp add: inputOnly_def)

lemma inputOnly_forEach: "inputOnly (fst (forEach (downloadAndVerify ev) ms))"
  unfolding inputOnly_def
  using forEach_events [of "downloadAndVerify ev" ms] downloadAndVerify_events
  by blast

lemma runCompactionJobBody_cases:
  assumes "runCompactionJobBody ev jb = (tr, shouldRerun, compIDs, rerr)"
  obtains
    (early) "inputOnly tr" "\<not> shouldRerun" "compIDs = []"
  | (empty) toCompact outIDs tr1 where
      "plannerPlan ev (metasByMinTime jb) = Inr toCompact"
      "mergeStep ev jb toCompact = Inr outIDs" "inputOnly tr1"
      "\<not> hasNonZeroULIDs outIDs" "tr = tr1 @ deleteEmptyBlocks ev toCompact"
      "shouldRerun" "compIDs = []" "rerr = None"
  | (failed) toCompact outIDs tr1 tr2 e where
      "plannerPlan ev (metasByMinTime jb) = Inr toCompact"
      "mergeStep ev jb toCompact = Inr outIDs" "inputOnly tr1"
      "hasNonZeroULIDs outIDs"
      "forEach (uploadBlock ev) (convertSliceOfUlids outIDs) = (tr2, Some e)"
      "tr = tr1 @ tr2" "\<not> shouldRerun" "compIDs = []" "rerr = Some e"
  | (uploaded) toCompact outIDs tr1 tr2 tr3 where
      "plannerPlan ev (metasByMinTime jb) = Inr toCompact"
      "mergeStep ev jb toCompact = Inr outIDs" "inputOnly tr1"
      "hasNonZeroULIDs outIDs"
      "forEach (uploadBlock ev) (convertSliceOfUlids outIDs) = (tr2, None)"
      "deleteCompactedBlocks ev toCompact = (tr3, rerr)" "tr = tr1 @ tr2 @ tr3"
      "shouldRerun = (rerr = None)" "compIDs = (if rerr = None then outIDs else [])"
proof (cases "osMkdirAll ev")
  case (Some e)
  with assms have "tr = []" "\<not> shouldRerun" "compIDs = []"
    by (auto simp: runCompactionJobBody_def)
  then show ?thesis using early inputOnly_Nil by simp
next
  case None
  note mk = this
  show ?thesis
  proof (cases "plannerPlan ev (metasByMinTime jb)")
    case (Inl e)
    with mk assms have "tr = []" "\<not> shouldRerun" "compIDs = []"
      by (auto simp: runCompactionJobBody_def)
    then show ?thesis using early inputOnly_Nil by simp
  next
    case (Inr toCompact)
    note pl = this
    show ?thesis
    proof (cases "length toCompact = 0")
      case True
      with mk pl assms have "tr = []" "\<not> shouldRerun" "compIDs = []"
        by (auto simp: runCompactionJobBody_def)
      then show ?thesis using early inputOnly_Nil by simp
    next
      case False
      note ne = this
      obtain tr1 r1 where dl: "forEach (downloadAndVerify ev) toCompact = (tr1, r1)"
        by (cases "forEach (downloadAndVerify ev) toCompact")
      have in1: "inputOnly tr1"
        using inputOnly_forEach [of ev toCompact] dl by simp
      show ?thesis
      proof (cases r1)
        case (Some e)
        with mk pl ne dl assms have "tr = tr1" "\<not> shouldRerun" "compIDs = []"
          by (auto simp: runCompactionJobBody_def)
        with in1 show ?thesis using early by simp
      next
        case None
        note ok1 = this
        show ?thesis
        proof (cases "mergeStep ev jb toCompact")
          case (Inl e)
          with mk pl ne dl ok1 assms have "tr = tr1" "\<not> shouldRerun" "compIDs = []"
            by (auto simp: runCompactionJobBody_def)
          with in1 show ?thesis using early by simp
        next
          case (Inr outIDs)
          note mg = this
          show ?thesis
          proof (cases "hasNonZeroULIDs outIDs")
            case False
            with mk pl ne dl ok1 mg assms have
              "tr = tr1 @ deleteEmptyBlocks ev toCompact" "shouldRerun" "compIDs = []" "rerr = None"
              by (auto simp: runCompactionJobBody_def)
            with pl mg in1 False show ?thesis by (rule empty)
          next
            case True
            note nz = this
            obtain tr2 r2 where up: "forEach (uploadBlock ev) (convertSliceOfUlids outIDs) = (tr2, r2)"
              by (cases "forEach (uploadBlock ev) (convertSliceOfUlids outIDs)")
            show ?thesis
            proof (cases r2)
              case (Some e)
              with mk pl ne dl ok1 mg nz up assms have
                "tr = tr1 @ tr2" "\<not> shouldRerun" "compIDs = []" "rerr = Some e"
                by (auto simp: runCompactionJobBody_def)
              with pl mg in1 nz up [unfolded Some] show ?thesis by (rule failed)
            next
              case None
              note ok2 = this
              obtain tr3 r3 where de: "deleteCompactedBlocks ev toCompact = (tr3, r3)"
                by (cases "deleteCompactedBlocks ev toCompact")
              from mk pl ne dl ok1 mg nz up ok2 de assms have
                r: "rerr = r3" and
                rest: "tr = tr1 @ tr2 @ tr3" "shouldRerun = (r3 = None)"
                "compIDs = (if r3 = None then outIDs else [])"
                by (cases r3; auto simp: runCompactionJobBody_def)+
              from pl mg in1 nz up [unfolded ok2] de [folded r] rest [folded r]
              show ?thesis by (rule uploaded)
            qed
          qed
        qed
      qed
    qed
  qed
qed

lemma inputOnly_no_mark: "inputOnly tr \<Longrightarrow> Ev OpMarkForDeletion i b \<notin> set tr"
  by (auto simp: inputOnly_def)

lemma inputOnly_no_output_event:
  "inputOnly tr \<Longrightarrow> Ev OpVerifyIndex c b \<notin> set tr \<and> Ev OpUpload c b \<notin> set tr"
  by (auto simp: inputOnly_def)

lemma upload_events_no_mark:
  "Ev OpMarkForDeletion i b \<notin> set (fst (forEach (uploadBlock ev) js))"
proof
  assume "Ev OpMarkForDeletion i b \<in> set (fst (forEach (uploadBlock ev) js))"
  with forEach_events [of "uploadBlock ev" js] obtain j where
    "Ev OpMarkForDeletion i b \<in> set (fst (uploadBlock ev j))"
    by blast
  from uploadBlock_events [OF this] show False by simp
qed

lemma upload_ok_succeeded:
  assumes "forEach (uploadBlock ev) js = (tr, None)" and "e \<in> set tr"
  shows "succeeded e"
proof -
  from forEach_events [of "uploadBlock ev" js] assms obtain j where
    j: "j \<in> set js" "e \<in> set (fst (uploadBlock ev j))"
    by auto
  from forEach_ok [OF assms(1) j(1)] have "snd (uploadBlock ev j) = None" by simp
  from uploadBlock_ok_succeeded [OF this j(2)] show ?thesis .
qed

lemma upload_ok_all_outputs:
  assumes "forEach (uploadBlock ev) (convertSliceOfUlids outIDs) = (tr, None)"
    and "c \<in> set outIDs" and "c \<noteq> zeroULID"
  shows "Ev OpInjectThanos c True \<in> set tr \<and> Ev OpRemoveTombstones c True \<in> set tr \<and>
         Ev OpVerifyIndex c True \<in> set tr \<and> Ev OpUpload c True \<in> set tr"
proof -
  have "map snd (convertSliceOfUlids outIDs) = outIDs"
    by (simp add: convertSliceOfUlids_def)
  with assms(2) have "c \<in> snd ` set (convertSliceOfUlids outIDs)"
    by (metis set_map)
  then obtain j where j: "j \<in> set (convertSliceOfUlids outIDs)" "snd j = c" by auto
  from forEach_ok [OF assms(1) j(1)] have
    ok: "snd (uploadBlock ev j) = None" and sub: "set (fst (uploadBlock ev j)) \<subseteq> set tr"
    by simp_all
  from uploadBlock_ok [OF ok] j(2) assms(3) sub show ?thesis by auto
qed

lemma deleteEmptyBlocks_no_output_event:
  "Ev OpVerifyIndex c b \<notin> set (deleteEmptyBlocks ev ms) \<and> Ev OpUpload c b \<notin> set (deleteEmptyBlocks ev ms)"
  using deleteEmptyBlocks_events [of _ ev ms] by fastforce

lemma deleteCompactedBlocks_no_output_event:
  "Ev OpVerifyIndex c b \<notin> set (fst (deleteCompactedBlocks ev ms)) \<and>
   Ev OpUpload c b \<notin> set (fst (deleteCompactedBlocks ev ms))"
  using deleteCompactedBlocks_events [of _ ev ms] by fastforce

lemma deferred_events: "e \<in> set (deferred ev r) \<Longrightarrow> opOf e = None"
  by (auto simp: deferred_def split: if_splits)

lemma split_at_mark:
  assumes "A @ B = pre @ e # post" and "e \<notin> set A"
  shows "set A \<subseteq> set pre \<and> e \<in> set B"
proof -
  from split_after_prefix [OF assms] obtain pre' where p: "pre = A @ pre'" ..
  with assms(1) have "B = pre' @ e # post" by simp
  with p show ?thesis by auto
qed

text \<open>
  C1. In the trace of \<open>runCompactionJob\<close>, wherever a mark-for-deletion of a block is
  issued, the block is an input of the plan, the merge step has returned, and every
  non-zero output ID of the merge has been finalized (\<open>InjectThanos\<close>, tombstones
  removed), index-verified and uploaded, each with success, earlier in the trace. If the verification or the upload of an
  output fails, the job returns an error (and \<open>shouldRerun = false\<close>) and the trace has no
  mark-for-deletion at all.
\<close>

theorem C1_inputs_marked_only_after_outputs_uploaded:
  assumes "runCompactionJob ev jb = (tr, shouldRerun, compIDs, rerr)"
  shows "(\<forall>pre i b post. tr = pre @ Ev OpMarkForDeletion i b # post \<longrightarrow>
           (\<exists>toCompact outIDs.
              plannerPlan ev (metasByMinTime jb) = Inr toCompact \<and> i \<in> ULID ` set toCompact \<and>
              mergeStep ev jb toCompact = Inr outIDs \<and>
              (\<forall>c \<in> set outIDs. c \<noteq> zeroULID \<longrightarrow>
                 Ev OpInjectThanos c True \<in> set pre \<and> Ev OpRemoveTombstones c True \<in> set pre \<and>
                 Ev OpVerifyIndex c True \<in> set pre \<and> Ev OpUpload c True \<in> set pre)))
     \<and> ((\<exists>c. Ev OpVerifyIndex c False \<in> set tr \<or> Ev OpUpload c False \<in> set tr) \<longrightarrow>
           rerr \<noteq> None \<and> \<not> shouldRerun \<and> (\<forall>i b. Ev OpMarkForDeletion i b \<notin> set tr))"
    (is "?after \<and> ?failure")
proof -
  obtain tr0 where
    body: "runCompactionJobBody ev jb = (tr0, shouldRerun, compIDs, rerr)" and
    tr: "tr = tr0 @ deferred ev rerr"
    using assms by (auto simp: runCompactionJob_def split: prod.splits)
  have dfm: "Ev p i b \<notin> set (deferred ev rerr)" for p i b
    using deferred_events [of "Ev p i b" ev rerr] by auto
  from body show ?thesis
  proof (cases rule: runCompactionJobBody_cases)
    case early
    have nm: "Ev OpMarkForDeletion i b \<notin> set tr" for i b
      using inputOnly_no_mark [OF early(1)] dfm tr by auto
    have nm': "tr \<noteq> pre @ Ev OpMarkForDeletion i b # post" for pre i b post
      using nm [of i b] by auto
    have no_out: "Ev OpVerifyIndex c False \<notin> set tr \<and> Ev OpUpload c False \<notin> set tr" for c
      using inputOnly_no_output_event [OF early(1)] dfm tr by auto
    have ?after using nm' by simp
    moreover have ?failure using no_out by simp
    ultimately show ?thesis ..
  next
    case (empty toCompact outIDs tr1)
    have no_out: "Ev OpVerifyIndex c False \<notin> set tr \<and> Ev OpUpload c False \<notin> set tr" for c
      using inputOnly_no_output_event [OF empty(3)]
        deleteEmptyBlocks_no_output_event [of c False ev toCompact] dfm tr empty(5)
      by auto
    have zero: "\<forall>c \<in> set outIDs. c \<noteq> zeroULID \<longrightarrow> P c" for P
      using empty(4) by (simp add: hasNonZeroULIDs_iff)
    have inp: "i \<in> ULID ` set toCompact" if "Ev OpMarkForDeletion i b \<in> set tr" for i b
    proof -
      from that tr empty(5) dfm inputOnly_no_mark [OF empty(3)]
      have "Ev OpMarkForDeletion i b \<in> set (deleteEmptyBlocks ev toCompact)" by auto
      then have "\<exists>b. Ev OpMarkForDeletion i b \<in> set (deleteEmptyBlocks ev toCompact)" ..
      then show ?thesis unfolding deleteEmptyBlocks_mark_iff by auto
    qed
    have ?after
    proof (intro allI impI)
      fix pre i b post
      assume "tr = pre @ Ev OpMarkForDeletion i b # post"
      then have "Ev OpMarkForDeletion i b \<in> set tr" by simp
      from inp [OF this] empty(1,2) zero
      show "\<exists>toCompact outIDs.
              plannerPlan ev (metasByMinTime jb) = Inr toCompact \<and> i \<in> ULID ` set toCompact \<and>
              mergeStep ev jb toCompact = Inr outIDs \<and>
              (\<forall>c \<in> set outIDs. c \<noteq> zeroULID \<longrightarrow>
                 Ev OpInjectThanos c True \<in> set pre \<and> Ev OpRemoveTombstones c True \<in> set pre \<and>
                 Ev OpVerifyIndex c True \<in> set pre \<and> Ev OpUpload c True \<in> set pre)"
        by (intro exI [of _ toCompact] exI [of _ outIDs] conjI)
    qed
    moreover have ?failure using no_out by simp
    ultimately show ?thesis ..
  next
    case (failed toCompact outIDs tr1 tr2 e)
    have nm: "Ev OpMarkForDeletion i b \<notin> set tr" for i b
      using inputOnly_no_mark [OF failed(3)]
        upload_events_no_mark [of i b ev "convertSliceOfUlids outIDs"] failed(5,6) dfm tr
      by auto
    have nm': "tr \<noteq> pre @ Ev OpMarkForDeletion i b # post" for pre i b post
      using nm [of i b] by auto
    have ?after using nm' by simp
    moreover have ?failure using nm failed(7,9) by simp
    ultimately show ?thesis ..
  next
    case (uploaded toCompact outIDs tr1 tr2 tr3)
    have no_out: "Ev OpVerifyIndex c False \<notin> set tr \<and> Ev OpUpload c False \<notin> set tr" for c
    proof -
      have "Ev OpVerifyIndex c False \<notin> set tr2 \<and> Ev OpUpload c False \<notin> set tr2"
        using upload_ok_succeeded [OF uploaded(5)] by fastforce
      moreover have "Ev OpVerifyIndex c False \<notin> set tr3 \<and> Ev OpUpload c False \<notin> set tr3"
        using deleteCompactedBlocks_no_output_event [of c False ev toCompact] uploaded(6) by simp
      ultimately show ?thesis
        using inputOnly_no_output_event [OF uploaded(3)] dfm tr uploaded(7) by auto
    qed
    have ?after
    proof (intro allI impI)
      fix pre i b post
      assume sp: "tr = pre @ Ev OpMarkForDeletion i b # post"
      have nm12: "Ev OpMarkForDeletion i b \<notin> set (tr1 @ tr2)"
        using inputOnly_no_mark [OF uploaded(3)]
          upload_events_no_mark [of i b ev "convertSliceOfUlids outIDs"] uploaded(5) by auto
      have "(tr1 @ tr2) @ (tr3 @ deferred ev rerr) = pre @ Ev OpMarkForDeletion i b # post"
        using sp tr uploaded(7) by simp
      from split_at_mark [OF this nm12] have
        sub: "set tr2 \<subseteq> set pre" and "Ev OpMarkForDeletion i b \<in> set (tr3 @ deferred ev rerr)"
        by auto
      with dfm have "Ev OpMarkForDeletion i b \<in> set (fst (deleteCompactedBlocks ev toCompact))"
        using uploaded(6) by auto
      from deleteCompactedBlocks_events [OF this] have inp: "i \<in> ULID ` set toCompact" by auto
      have outs: "\<forall>c \<in> set outIDs. c \<noteq> zeroULID \<longrightarrow>
           Ev OpInjectThanos c True \<in> set pre \<and> Ev OpRemoveTombstones c True \<in> set pre \<and>
           Ev OpVerifyIndex c True \<in> set pre \<and> Ev OpUpload c True \<in> set pre"
        using upload_ok_all_outputs [OF uploaded(5)] sub by blast
      from uploaded(1) inp uploaded(2) outs
      show "\<exists>toCompact outIDs.
              plannerPlan ev (metasByMinTime jb) = Inr toCompact \<and> i \<in> ULID ` set toCompact \<and>
              mergeStep ev jb toCompact = Inr outIDs \<and>
              (\<forall>c \<in> set outIDs. c \<noteq> zeroULID \<longrightarrow>
                 Ev OpInjectThanos c True \<in> set pre \<and> Ev OpRemoveTombstones c True \<in> set pre \<and>
                 Ev OpVerifyIndex c True \<in> set pre \<and> Ev OpUpload c True \<in> set pre)"
        by (intro exI [of _ toCompact] exI [of _ outIDs] conjI)
    qed
    moreover have ?failure using no_out by simp
    ultimately show ?thesis ..
  qed
qed


subsection \<open>Running one compaction job: the claims on concrete runs\<close>

text \<open>An environment in which every call succeeds and \<open>Compact\<close> returns block 9.\<close>

abbreviation healthy :: index_stats where
  "healthy \<equiv> \<lparr>criticalErr = None, outOfOrderChunksErr = None,
      issue347OutsideChunksErr = None, prometheusIssue5372Err = None\<rparr>"

abbreviation exEnv :: env where
  "exEnv \<equiv>
     \<lparr>osMkdirAll = None, plannerPlan = (\<lambda>ms. Inr ms), blockDownload = (\<lambda>i. None),
      blockGatherIndexHealthStats = (\<lambda>i. Inr healthy), compCompact = (\<lambda>ids. Inr 9),
      compCompactWithSplitting = (\<lambda>ids n. Inr [9, 0, 10]),
      metadataInjectThanos = (\<lambda>i. None), osRemoveTombstones = (\<lambda>i. None),
      blockVerifyIndex = (\<lambda>i. None), blockUpload = (\<lambda>i. None), osRemoveAll = (\<lambda>i. None),
      blockMarkForDeletion = (\<lambda>i. None), osRemoveAllSubDir = None\<rparr>"

abbreviation exPlannedJob :: job where
  "exPlannedJob \<equiv> (exJob ''0@1'')\<lparr>metasByMinTime := [exMeta 1 100, exMeta 2 0]\<rparr>"

lemmas run_defs =
  runCompactionJob_def runCompactionJobBody_def downloadAndVerify_def classifyStats_def
  mergeStep_def zeroULID_def convertSliceOfUlids_def uploadBlock_def deleteBlock_def
  deferred_def retry_def IsHaltError_def

theorem C1_inputs_marked_witness:
  "runCompactionJob exEnv exPlannedJob =
     ([Ev OpDownload 1 True, Ev OpGatherIndexHealthStats 1 True,
       Ev OpDownload 2 True, Ev OpGatherIndexHealthStats 2 True,
       Ev OpInjectThanos 9 True, Ev OpRemoveTombstones 9 True, Ev OpVerifyIndex 9 True,
       Ev OpUpload 9 True,
       Ev OpRemoveAll 1 True, Ev OpMarkForDeletion 1 True,
       Ev OpRemoveAll 2 True, Ev OpMarkForDeletion 2 True,
       EvRemoveAllSubDir True],
      True, [9], None)
   \<and> (\<exists>toCompact outIDs.
        plannerPlan exEnv (metasByMinTime exPlannedJob) = Inr toCompact \<and>
        1 \<in> ULID ` set toCompact \<and> mergeStep exEnv exPlannedJob toCompact = Inr outIDs \<and>
        (\<forall>c \<in> set outIDs. c \<noteq> zeroULID \<longrightarrow>
           Ev OpInjectThanos c True
             \<in> set [Ev OpDownload 1 True, Ev OpGatherIndexHealthStats 1 True,
                    Ev OpDownload 2 True, Ev OpGatherIndexHealthStats 2 True,
                    Ev OpInjectThanos 9 True, Ev OpRemoveTombstones 9 True,
                    Ev OpVerifyIndex 9 True, Ev OpUpload 9 True, Ev OpRemoveAll 1 True] \<and>
           Ev OpRemoveTombstones c True
             \<in> set [Ev OpDownload 1 True, Ev OpGatherIndexHealthStats 1 True,
                    Ev OpDownload 2 True, Ev OpGatherIndexHealthStats 2 True,
                    Ev OpInjectThanos 9 True, Ev OpRemoveTombstones 9 True,
                    Ev OpVerifyIndex 9 True, Ev OpUpload 9 True, Ev OpRemoveAll 1 True] \<and>
           Ev OpVerifyIndex c True
             \<in> set [Ev OpDownload 1 True, Ev OpGatherIndexHealthStats 1 True,
                    Ev OpDownload 2 True, Ev OpGatherIndexHealthStats 2 True,
                    Ev OpInjectThanos 9 True, Ev OpRemoveTombstones 9 True,
                    Ev OpVerifyIndex 9 True, Ev OpUpload 9 True, Ev OpRemoveAll 1 True] \<and>
           Ev OpUpload c True
             \<in> set [Ev OpDownload 1 True, Ev OpGatherIndexHealthStats 1 True,
                    Ev OpDownload 2 True, Ev OpGatherIndexHealthStats 2 True,
                    Ev OpInjectThanos 9 True, Ev OpRemoveTombstones 9 True,
                    Ev OpVerifyIndex 9 True, Ev OpUpload 9 True, Ev OpRemoveAll 1 True]))
   \<and> Ev OpUpload 9 False
        \<in> set (fst (runCompactionJob (exEnv\<lparr>blockUpload := \<lambda>i. Some (Plain ''bucket 503'')\<rparr>)
                      exPlannedJob))
   \<and> snd (runCompactionJob (exEnv\<lparr>blockUpload := \<lambda>i. Some (Plain ''bucket 503'')\<rparr>)
             exPlannedJob)
       = (False, [], Some (RetryError (Wrap ''upload of %s failed'' (Plain ''bucket 503''))))
   \<and> Ev OpMarkForDeletion 1 True
        \<notin> set (fst (runCompactionJob (exEnv\<lparr>blockUpload := \<lambda>i. Some (Plain ''bucket 503'')\<rparr>)
                      exPlannedJob))"
proof -
  let ?pre = "[Ev OpDownload 1 True, Ev OpGatherIndexHealthStats 1 True,
       Ev OpDownload 2 True, Ev OpGatherIndexHealthStats 2 True,
       Ev OpInjectThanos 9 True, Ev OpRemoveTombstones 9 True, Ev OpVerifyIndex 9 True,
       Ev OpUpload 9 True, Ev OpRemoveAll 1 True]"
  let ?post = "[Ev OpRemoveAll 2 True, Ev OpMarkForDeletion 2 True, EvRemoveAllSubDir True]"
  have run: "runCompactionJob exEnv exPlannedJob
      = (?pre @ Ev OpMarkForDeletion 1 True # ?post, True, [9], None)"
    by (simp add: run_defs)
  let ?bad = "exEnv\<lparr>blockUpload := \<lambda>i. Some (Plain ''bucket 503'')\<rparr>"
  let ?e = "RetryError (Wrap ''upload of %s failed'' (Plain ''bucket 503''))"
  have bad: "runCompactionJob ?bad exPlannedJob
      = (fst (runCompactionJob ?bad exPlannedJob), False, [], Some ?e)"
    by (simp add: run_defs)
  have up: "Ev OpUpload 9 False \<in> set (fst (runCompactionJob ?bad exPlannedJob))"
    by (simp add: run_defs)
  from C1_inputs_marked_only_after_outputs_uploaded [OF run]
  have a: "\<exists>toCompact outIDs.
        plannerPlan exEnv (metasByMinTime exPlannedJob) = Inr toCompact \<and>
        1 \<in> ULID ` set toCompact \<and> mergeStep exEnv exPlannedJob toCompact = Inr outIDs \<and>
        (\<forall>c \<in> set outIDs. c \<noteq> zeroULID \<longrightarrow>
           Ev OpInjectThanos c True \<in> set ?pre \<and> Ev OpRemoveTombstones c True \<in> set ?pre \<and>
           Ev OpVerifyIndex c True \<in> set ?pre \<and> Ev OpUpload c True \<in> set ?pre)"
    by blast
  from C1_inputs_marked_only_after_outputs_uploaded [OF bad] up
  have b: "Ev OpMarkForDeletion 1 True \<notin> set (fst (runCompactionJob ?bad exPlannedJob))"
    by blast
  have c: "snd (runCompactionJob ?bad exPlannedJob) = (False, [], Some ?e)"
    using bad by (metis snd_conv)
  from run a up c b show ?thesis
    by (simp only: append_Cons append_Nil simp_thms)
qed

text \<open>
  An environment in which the merge produces no block and the local directory of block 2
  cannot be removed.
\<close>

abbreviation exEmptyEnv :: env where
  "exEmptyEnv \<equiv>
     exEnv\<lparr>compCompact := \<lambda>ids. Inr zeroULID,
            osRemoveAll := \<lambda>i. if i = 2 then Some (Plain ''permission denied'') else None\<rparr>"

abbreviation exEmptyJob :: job where
  "exEmptyJob \<equiv> (exJob ''0@1'')\<lparr>metasByMinTime := [exMeta 1 100, exMeta 2 0, exMeta 3 0]\<rparr>"

text \<open>
  C4, as stated, fails: the plan holds blocks 2 and 3 with no samples and every output ID
  is zero, but \<open>deleteBlock\<close> returns before \<open>block.MarkForDeletion\<close> when
  \<open>os.RemoveAll\<close> of the block's directory fails, so no deletion mark is issued for
  block 2. The failure is logged and the job still returns \<open>(true, nil, nil)\<close>.
\<close>

theorem C4_removeall_failure_counterexample:
  "plannerPlan exEmptyEnv (metasByMinTime exEmptyJob) = Inr [exMeta 1 100, exMeta 2 0, exMeta 3 0]
   \<and> mergeStep exEmptyEnv exEmptyJob [exMeta 1 100, exMeta 2 0, exMeta 3 0] = Inr [zeroULID]
   \<and> NumSamples (exMeta 2 0) = 0
   \<and> runCompactionJob exEmptyEnv exEmptyJob =
       ([Ev OpDownload 1 True, Ev OpGatherIndexHealthStats 1 True,
         Ev OpDownload 2 True, Ev OpGatherIndexHealthStats 2 True,
         Ev OpDownload 3 True, Ev OpGatherIndexHealthStats 3 True,
         Ev OpRemoveAll 2 False,
         Ev OpRemoveAll 3 True, Ev OpMarkForDeletion 3 True,
         EvRemoveAllSubDir True],
        True, [], None)
   \<and> (\<forall>b. Ev OpMarkForDeletion 2 b \<notin> set (fst (runCompactionJob exEmptyEnv exEmptyJob)))"
  by (simp add: run_defs)

text \<open>
  C4, amended. When the job reaches the merge step (the work directory was created, the
  plan is not empty, every input was downloaded and passed the index checks, the merge
  returned) and every output ID is the zero ULID, the job returns \<open>shouldRerun = true\<close>,
  no IDs and no error, and a deletion mark is issued for exactly the planned blocks with
  \<open>NumSamples = 0\<close> whose local directory was removed.
\<close>

theorem C4_empty_result_marks_empty_inputs:
  assumes "osMkdirAll ev = None"
    and "plannerPlan ev (metasByMinTime jb) = Inr toCompact"
    and "toCompact \<noteq> []"
    and "snd (forEach (downloadAndVerify ev) toCompact) = None"
    and "mergeStep ev jb toCompact = Inr outIDs"
    and "\<forall>c \<in> set outIDs. c = zeroULID"
  shows "snd (runCompactionJob ev jb) = (True, [], None)
     \<and> (\<forall>i. (\<exists>b. Ev OpMarkForDeletion i b \<in> set (fst (runCompactionJob ev jb))) \<longleftrightarrow>
              (\<exists>m \<in> set toCompact. ULID m = i \<and> NumSamples m = 0 \<and> osRemoveAll ev i = None))"
proof -
  obtain tr1 where dl: "forEach (downloadAndVerify ev) toCompact = (tr1, None)"
    using assms(4) by (cases "forEach (downloadAndVerify ev) toCompact") auto
  have in1: "inputOnly tr1"
    using inputOnly_forEach [of ev toCompact] dl by simp
  have nz: "\<not> hasNonZeroULIDs outIDs"
    using assms(6) by (simp add: hasNonZeroULIDs_iff)
  have body: "runCompactionJobBody ev jb = (tr1 @ deleteEmptyBlocks ev toCompact, True, [], None)"
    using assms(1,2,3,5) dl nz by (simp add: runCompactionJobBody_def)
  then have run: "runCompactionJob ev jb
      = (tr1 @ deleteEmptyBlocks ev toCompact @ [EvRemoveAllSubDir (osRemoveAllSubDir ev = None)],
         True, [], None)"
    by (simp add: runCompactionJob_def deferred_def)
  have "(\<exists>b. Ev OpMarkForDeletion i b \<in> set (fst (runCompactionJob ev jb))) \<longleftrightarrow>
      (\<exists>b. Ev OpMarkForDeletion i b \<in> set (deleteEmptyBlocks ev toCompact))" for i
    using inputOnly_no_mark [OF in1] by (auto simp: run)
  then show ?thesis
    unfolding deleteEmptyBlocks_mark_iff using run by simp
qed

theorem C4_empty_result_witness:
  "snd (runCompactionJob exEmptyEnv exEmptyJob) = (True, [], None)
   \<and> Ev OpMarkForDeletion 3 True \<in> set (fst (runCompactionJob exEmptyEnv exEmptyJob))
   \<and> Ev OpMarkForDeletion 1 True \<notin> set (fst (runCompactionJob exEmptyEnv exEmptyJob))
   \<and> Ev OpMarkForDeletion 2 True \<notin> set (fst (runCompactionJob exEmptyEnv exEmptyJob))"
proof -
  have h: "osMkdirAll exEmptyEnv = None"
    "plannerPlan exEmptyEnv (metasByMinTime exEmptyJob) = Inr [exMeta 1 100, exMeta 2 0, exMeta 3 0]"
    "[exMeta 1 100, exMeta 2 0, exMeta 3 0] \<noteq> []"
    "snd (forEach (downloadAndVerify exEmptyEnv) [exMeta 1 100, exMeta 2 0, exMeta 3 0]) = None"
    "mergeStep exEmptyEnv exEmptyJob [exMeta 1 100, exMeta 2 0, exMeta 3 0] = Inr [zeroULID]"
    "\<forall>c \<in> set [zeroULID]. c = zeroULID"
    by (simp_all add: run_defs)
  from C4_empty_result_marks_empty_inputs [OF h]
  have r: "snd (runCompactionJob exEmptyEnv exEmptyJob) = (True, [], None)"
    and m: "\<And>i. (\<exists>b. Ev OpMarkForDeletion i b \<in> set (fst (runCompactionJob exEmptyEnv exEmptyJob))) \<longleftrightarrow>
              (\<exists>m \<in> set [exMeta 1 100, exMeta 2 0, exMeta 3 0].
                 ULID m = i \<and> NumSamples m = 0 \<and> osRemoveAll exEmptyEnv i = None)"
    by blast+
  have "Ev OpMarkForDeletion 3 True \<in> set (fst (runCompactionJob exEmptyEnv exEmptyJob))"
    by (simp add: run_defs)
  moreover have "Ev OpMarkForDeletion 1 True \<notin> set (fst (runCompactionJob exEmptyEnv exEmptyJob))"
    using m [of 1] by auto
  moreover have "Ev OpMarkForDeletion 2 True \<notin> set (fst (runCompactionJob exEmptyEnv exEmptyJob))"
    using m [of 2] by auto
  ultimately show ?thesis using r by simp
qed


subsection \<open>Group keys\<close>

text \<open>
  \<open>defaultGroupKey\<close> (lines 253-255) is \<open>fmt.Sprintf("%d@%v", res, lbls.Hash())\<close>: the resolution (int64) in decimal with a
  minus sign when negative, the character \<open>@\<close>, the hash (uint64) in decimal.
\<close>

definition digitChar :: "nat \<Rightarrow> char" where
  "digitChar d = ''0123456789'' ! d"

function formatUint :: "nat \<Rightarrow> string" where
  "formatUint n = (if n < 10 then [digitChar n] else formatUint (n div 10) @ [digitChar (n mod 10)])"
  by pat_completeness auto
termination
  by (relation "measure id") auto

declare formatUint.simps [simp del]

definition formatInt :: "int \<Rightarrow> string" where
  "formatInt i = (if i < 0 then CHR ''-'' # formatUint (nat (- i)) else formatUint (nat i))"

text \<open>
  External labels as \<open>labels.FromMap\<close> lists them. \<open>labels.Labels.Hash\<close> belongs to the
  Prometheus library; the model takes it as the parameter \<open>lblsHash\<close>.
\<close>

type_synonym labelset = "(string \<times> string) list"

definition defaultGroupKey :: "(labelset \<Rightarrow> 64 word) \<Rightarrow> 64 word \<Rightarrow> labelset \<Rightarrow> string" where
  "defaultGroupKey lblsHash res lbls = formatInt (sint res) @ ''@'' @ formatUint (unat (lblsHash lbls))"

definition DefaultGroupKey :: "(labelset \<Rightarrow> 64 word) \<Rightarrow> meta \<Rightarrow> string" where
  "DefaultGroupKey lblsHash m = defaultGroupKey lblsHash (Resolution m) (Labels m)"


subsection \<open>Group keys are injective in (resolution, hash)\<close>

lemma digit_cases:
  "d < 10 \<Longrightarrow> d = 0 \<or> d = 1 \<or> d = 2 \<or> d = 3 \<or> d = 4 \<or> d = 5 \<or> d = 6 \<or> d = 7 \<or> d = 8 \<or> d = (9::nat)"
  by arith

lemma of_char_digitChar: "d < 10 \<Longrightarrow> of_char (digitChar d) = 48 + d"
  by (drule digit_cases) (auto simp: digitChar_def)

definition digitVal :: "char \<Rightarrow> nat" where
  "digitVal c = of_char c - 48"

lemma digitVal_digitChar: "d < 10 \<Longrightarrow> digitVal (digitChar d) = d"
  by (simp add: digitVal_def of_char_digitChar)

definition parseUint :: "string \<Rightarrow> nat" where
  "parseUint s = foldl (\<lambda>a c. 10 * a + digitVal c) 0 s"

lemma parseUint_snoc: "parseUint (s @ [c]) = 10 * parseUint s + digitVal c"
  by (simp add: parseUint_def)

lemma parseUint_formatUint: "parseUint (formatUint n) = n"
proof (induction n rule: formatUint.induct)
  case (1 n)
  show ?case
  proof (cases "n < 10")
    case True
    then show ?thesis
      by (subst formatUint.simps) (simp add: parseUint_def digitVal_digitChar)
  next
    case False
    with "1.IH" have "parseUint (formatUint (n div 10)) = n div 10" by simp
    with False show ?thesis
      by (subst formatUint.simps) (simp add: parseUint_snoc digitVal_digitChar)
  qed
qed

lemma formatUint_inj: "formatUint a = formatUint b \<longleftrightarrow> a = b"
  by (metis parseUint_formatUint)

lemma digitChar_not_special: "d < 10 \<Longrightarrow> digitChar d \<noteq> CHR ''@'' \<and> digitChar d \<noteq> CHR ''-''"
proof -
  assume d: "d < 10"
  then have v: "(of_char (digitChar d) :: nat) = 48 + d" by (rule of_char_digitChar)
  have "(of_char (digitChar d) :: nat) \<noteq> of_char (CHR ''@'')"
    "(of_char (digitChar d) :: nat) \<noteq> of_char (CHR ''-'')"
    unfolding v using d by simp_all
  then show ?thesis by auto
qed

lemma formatUint_chars: "c \<in> set (formatUint n) \<Longrightarrow> c \<noteq> CHR ''@'' \<and> c \<noteq> CHR ''-''"
proof (induction n rule: formatUint.induct)
  case (1 n)
  show ?case
  proof (cases "n < 10")
    case True
    with "1.prems" have "c = digitChar n"
      by (subst (asm) formatUint.simps) simp
    with True digitChar_not_special show ?thesis by simp
  next
    case False
    with "1.prems" have "c \<in> set (formatUint (n div 10)) \<or> c = digitChar (n mod 10)"
      by (subst (asm) formatUint.simps) auto
    then show ?thesis
    proof
      assume "c \<in> set (formatUint (n div 10))"
      with "1.IH" False show ?thesis by simp
    next
      assume "c = digitChar (n mod 10)"
      then show ?thesis using digitChar_not_special [of "n mod 10"] by simp
    qed
  qed
qed

lemma formatUint_not_Nil: "formatUint n \<noteq> []"
  by (subst formatUint.simps) simp

lemma formatUint_hd: "hd (formatUint n) \<noteq> CHR ''-''"
  using formatUint_chars [of "hd (formatUint n)" n] formatUint_not_Nil [of n]
  by (metis hd_in_set)

lemma formatInt_inj: "formatInt a = formatInt b \<longleftrightarrow> a = b"
proof
  assume eq: "formatInt a = formatInt b"
  show "a = b"
  proof (cases "a < 0")
    case True
    note a = this
    show ?thesis
    proof (cases "b < 0")
      case True
      with a eq have "nat (- a) = nat (- b)"
        by (simp add: formatInt_def formatUint_inj)
      with a True show ?thesis by simp
    next
      case False
      with a eq have "CHR ''-'' # formatUint (nat (- a)) = formatUint (nat b)"
        by (simp add: formatInt_def)
      then have "hd (formatUint (nat b)) = CHR ''-''" by (metis list.sel(1))
      with formatUint_hd show ?thesis by blast
    qed
  next
    case False
    note a = this
    show ?thesis
    proof (cases "b < 0")
      case True
      with a eq have "formatUint (nat a) = CHR ''-'' # formatUint (nat (- b))"
        by (simp add: formatInt_def)
      then have "hd (formatUint (nat a)) = CHR ''-''" by (metis list.sel(1))
      with formatUint_hd show ?thesis by blast
    next
      case False
      with a eq have "nat a = nat b"
        by (simp add: formatInt_def formatUint_inj)
      with a False show ?thesis by simp
    qed
  qed
qed simp

lemma formatInt_chars: "c \<in> set (formatInt i) \<Longrightarrow> c \<noteq> CHR ''@''"
  using formatUint_chars by (auto simp: formatInt_def split: if_splits)

lemma split_at_sep:
  assumes "xs @ c # ys = xs' @ c # ys'" and "c \<notin> set xs" and "c \<notin> set xs'"
  shows "xs = xs' \<and> ys = ys'"
  using assms
proof (induction xs arbitrary: xs')
  case Nil
  then show ?case by (cases xs') auto
next
  case (Cons x xs)
  then show ?case by (cases xs') auto
qed

lemma defaultGroupKey_inj:
  "defaultGroupKey hsh r1 l1 = defaultGroupKey hsh r2 l2 \<longleftrightarrow> r1 = r2 \<and> hsh l1 = hsh l2"
proof
  assume "defaultGroupKey hsh r1 l1 = defaultGroupKey hsh r2 l2"
  then have "formatInt (sint r1) @ CHR ''@'' # formatUint (unat (hsh l1))
      = formatInt (sint r2) @ CHR ''@'' # formatUint (unat (hsh l2))"
    by (simp add: defaultGroupKey_def)
  from split_at_sep [OF this] formatInt_chars
  have "formatInt (sint r1) = formatInt (sint r2)"
    "formatUint (unat (hsh l1)) = formatUint (unat (hsh l2))"
    by blast+
  then have "sint r1 = sint r2" "unat (hsh l1) = unat (hsh l2)"
    by (simp_all add: formatInt_inj formatUint_inj)
  then show "r1 = r2 \<and> hsh l1 = hsh l2"
    by (auto intro: signed_word_eqI unsigned_word_eqI)
qed (simp add: defaultGroupKey_def)

subsection \<open>The default grouper\<close>

record defaultGrouper =
  grouperUserID :: string
  grouperHashFunc :: string

text \<open>
  Modelled from the spec: \<open>NewJob\<close> (job.go is not among the sources). A job starts
  with its key, its label set, its resolution and no metas (spec, section 3, Job).
\<close>

definition NewJob ::
  "string \<Rightarrow> string \<Rightarrow> labelset \<Rightarrow> 64 word \<Rightarrow> string \<Rightarrow> bool \<Rightarrow> 32 word \<Rightarrow> string \<Rightarrow> job" where
  "NewJob uid k lbls res hf splitting shards shardKey =
     \<lparr>userID = uid, key = k, labels = lbls, resolution = res, hashFunc = hf,
      useSplitting = splitting, splitNumShards = shards, shardingKey = shardKey,
      metasByMinTime = []\<rparr>"

text \<open>
  Modelled from the spec: \<open>Job.AppendMeta\<close> (job.go is not among the sources). The spec's
  Job keeps the invariant that all metas share the job's labels and resolution, and keeps
  its metas ordered by \<open>MinTime\<close> ascending with ties broken by \<open>ID\<close>: a meta that
  would break the invariant is refused with an error (the error \<open>Groups\<close> handles), any
  other is inserted in order.
\<close>

definition AppendMeta :: "job \<Rightarrow> meta \<Rightarrow> err + job" where
  "AppendMeta jb m =
     (if labels jb \<noteq> Labels m then Inl (Plain ''block and group labels do not match'')
      else if resolution jb \<noteq> Resolution m then
        Inl (Plain ''block and group resolution do not match'')
      else
        Inr (jb\<lparr>metasByMinTime :=
                 insort_key (\<lambda>x. (sint (MinTime x), ULID x)) m (metasByMinTime jb)\<rparr>))"

text \<open>
  \<open>DefaultGrouper.Groups\<close> (lines 273-301). The argument \<open>blockMetas\<close> lists the values of the map
  \<open>blocks\<close> in the order the \<open>range\<close> loop visits them (any order). The jobs are
  pointers shared by the map \<open>groups\<close> and the slice \<open>res\<close>; the model keeps the jobs in
  \<open>groups\<close> and the keys, in order of creation, in \<open>res\<close>. \<open>groupsStep\<close> is the loop body.
  After the loop, \<open>sort.Slice\<close> orders \<open>res\<close> by \<open>Key()\<close> with Go's bytewise string
  comparison; the keys in \<open>res\<close> are distinct, so the result is the sorted list.
\<close>

type_synonym groups_state = "(string \<rightharpoonup> job) \<times> string list"

definition groupsStep ::
  "defaultGrouper \<Rightarrow> (labelset \<Rightarrow> 64 word) \<Rightarrow> meta \<Rightarrow> groups_state \<Rightarrow> err + groups_state" where
  "groupsStep g lblsHash m st =
     (let groups = fst st; res = snd st;
          groupKey = DefaultGroupKey lblsHash m;
          (jb, groups1, res1) =
            (case groups groupKey of
               Some jb \<Rightarrow> (jb, groups, res)
             | None \<Rightarrow>
                 (let jb = NewJob (grouperUserID g) groupKey (Labels m) (Resolution m)
                             (grouperHashFunc g) False 0 []
                  in (jb, groups(groupKey \<mapsto> jb), res @ [groupKey])))
      in case AppendMeta jb m of
           Inl e \<Rightarrow> Inl (Wrap ''add compaction group'' e)
         | Inr jb' \<Rightarrow> Inr (groups1(groupKey \<mapsto> jb'), res1))"

fun groupsLoop ::
  "defaultGrouper \<Rightarrow> (labelset \<Rightarrow> 64 word) \<Rightarrow> meta list \<Rightarrow> groups_state \<Rightarrow> err + groups_state" where
  "groupsLoop g lblsHash [] st = Inr st"
| "groupsLoop g lblsHash (m # ms) st =
     (case groupsStep g lblsHash m st of
        Inl e \<Rightarrow> Inl e
      | Inr st' \<Rightarrow> groupsLoop g lblsHash ms st')"

definition Groups ::
  "defaultGrouper \<Rightarrow> (labelset \<Rightarrow> 64 word) \<Rightarrow> meta list \<Rightarrow> err + job list" where
  "Groups g lblsHash blockMetas =
     (case groupsLoop g lblsHash blockMetas (Map.empty, []) of
        Inl e \<Rightarrow> Inl e
      | Inr (groups, res) \<Rightarrow> Inr (List.map_filter groups (sort res)))"

text \<open>Example values for evaluating the grouper.\<close>

abbreviation exGrouper :: defaultGrouper where
  "exGrouper \<equiv> \<lparr>grouperUserID = ''user-1'', grouperHashFunc = []\<rparr>"

abbreviation exBlock :: "ulid \<Rightarrow> 64 word \<Rightarrow> 64 word \<Rightarrow> labelset \<Rightarrow> meta" where
  "exBlock i t r l \<equiv> \<lparr>ULID = i, MinTime = t, MaxTime = t + 10, NumSamples = 100, CompactionLevel = 1,
      Labels = l, Resolution = r\<rparr>"



subsection \<open>The default grouper: loop invariant\<close>

text \<open>
  Blocks with the same resolution and the same label hash have the same labels (no hash
  collision among the blocks).
\<close>

definition labelsAgree :: "(labelset \<Rightarrow> 64 word) \<Rightarrow> meta list \<Rightarrow> bool" where
  "labelsAgree lblsHash ms =
     (\<forall>a \<in> set ms. \<forall>b \<in> set ms.
        Resolution a = Resolution b \<and> lblsHash (Labels a) = lblsHash (Labels b)
          \<longrightarrow> Labels a = Labels b)"

text \<open>
  The invariant of the loop after the blocks \<open>ps\<close>: \<open>res\<close> lists the keys of \<open>groups\<close>
  once each, these are the keys of the blocks seen, and the job under a key carries that
  key, the key of its own resolution and labels, exactly the blocks seen with that key,
  and the labels of all of them.
\<close>

definition groupsInv ::
  "(labelset \<Rightarrow> 64 word) \<Rightarrow> meta list \<Rightarrow> (string \<rightharpoonup> job) \<Rightarrow> string list \<Rightarrow> bool" where
  "groupsInv lblsHash ps groups res =
     (distinct res \<and> set res = dom groups \<and> dom groups = DefaultGroupKey lblsHash ` set ps \<and>
      (\<forall>k j. groups k = Some j \<longrightarrow>
         key j = k \<and> k = defaultGroupKey lblsHash (resolution j) (labels j) \<and>
         mset (metasByMinTime j) = filter_mset (\<lambda>m. DefaultGroupKey lblsHash m = k) (mset ps) \<and>
         (\<forall>p \<in> set ps. DefaultGroupKey lblsHash p = k \<longrightarrow> Labels p = labels j)))"

lemma DefaultGroupKey_eq_iff:
  "DefaultGroupKey hsh a = DefaultGroupKey hsh b \<longleftrightarrow>
     Resolution a = Resolution b \<and> hsh (Labels a) = hsh (Labels b)"
  by (simp add: DefaultGroupKey_def defaultGroupKey_inj)

lemma groupsInv_empty: "groupsInv hsh [] Map.empty []"
  by (simp add: groupsInv_def)

lemma groupsStep_new:
  "groups (DefaultGroupKey hsh m) = None \<Longrightarrow>
   groupsStep g hsh m (groups, res) =
     Inr (groups(DefaultGroupKey hsh m \<mapsto>
            (NewJob (grouperUserID g) (DefaultGroupKey hsh m) (Labels m) (Resolution m)
               (grouperHashFunc g) False 0 [])\<lparr>metasByMinTime := [m]\<rparr>),
          res @ [DefaultGroupKey hsh m])"
  by (simp add: groupsStep_def AppendMeta_def NewJob_def Let_def)

lemma groupsStep_old:
  "groups (DefaultGroupKey hsh m) = Some jb \<Longrightarrow>
   groupsStep g hsh m (groups, res) =
     (case AppendMeta jb m of
        Inl e \<Rightarrow> Inl (Wrap ''add compaction group'' e)
      | Inr jb' \<Rightarrow> Inr (groups(DefaultGroupKey hsh m \<mapsto> jb'), res))"
  by (simp add: groupsStep_def Let_def)

lemma groupsInv_step:
  assumes inv: "groupsInv hsh ps groups res"
    and step: "groupsStep g hsh m (groups, res) = Inr (groups', res')"
  shows "groupsInv hsh (ps @ [m]) groups' res'"
proof (cases "groups (DefaultGroupKey hsh m)")
  case None
  let ?k = "DefaultGroupKey hsh m"
  let ?j = "(NewJob (grouperUserID g) ?k (Labels m) (Resolution m)
               (grouperHashFunc g) False 0 [])\<lparr>metasByMinTime := [m]\<rparr>"
  from step groupsStep_new [where groups=groups and hsh=hsh and m=m and g=g and res=res] None have
    g': "groups' = groups(?k \<mapsto> ?j)" and r': "res' = res @ [?k]"
    by simp_all
  from inv have d: "distinct res" "set res = dom groups"
    "dom groups = DefaultGroupKey hsh ` set ps"
    by (simp_all add: groupsInv_def)
  from None have "?k \<notin> dom groups" by (simp add: domIff)
  with d have fresh: "?k \<notin> set res" "\<forall>p \<in> set ps. DefaultGroupKey hsh p \<noteq> ?k"
    by (simp, metis imageI)
  have a: "distinct res'" using d fresh r' by simp
  have b: "set res' = dom groups'" using d g' r' by auto
  have c: "dom groups' = DefaultGroupKey hsh ` set (ps @ [m])" using d g' by auto
  have e: "key j = k \<and> k = defaultGroupKey hsh (resolution j) (labels j) \<and>
         mset (metasByMinTime j) = filter_mset (\<lambda>x. DefaultGroupKey hsh x = k) (mset (ps @ [m])) \<and>
         (\<forall>p \<in> set (ps @ [m]). DefaultGroupKey hsh p = k \<longrightarrow> Labels p = labels j)"
    if kj: "groups' k = Some j" for k j
  proof (cases "k = ?k")
    case True
    with kj g' have j: "j = ?j" by simp
    have "filter_mset (\<lambda>x. DefaultGroupKey hsh x = ?k) (mset ps) = {#}"
      using fresh(2) by simp
    then show ?thesis
      using True j fresh(2) by (auto simp: NewJob_def DefaultGroupKey_def)
  next
    case False
    with kj g' have old: "groups k = Some j" by simp
    with inv have "key j = k" "k = defaultGroupKey hsh (resolution j) (labels j)"
      "mset (metasByMinTime j) = filter_mset (\<lambda>x. DefaultGroupKey hsh x = k) (mset ps)"
      "\<forall>p \<in> set ps. DefaultGroupKey hsh p = k \<longrightarrow> Labels p = labels j"
      by (simp_all add: groupsInv_def)
    with False show ?thesis by auto
  qed
  from a b c e show ?thesis
    unfolding groupsInv_def by blast
next
  case (Some jb)
  let ?k = "DefaultGroupKey hsh m"
  from step groupsStep_old [where groups=groups and hsh=hsh and m=m and g=g and res=res and jb=jb] Some obtain jb' where
    am: "AppendMeta jb m = Inr jb'" and g': "groups' = groups(?k \<mapsto> jb')" and r': "res' = res"
    by (auto split: sum.splits)
  from am have lab: "labels jb = Labels m" and
    jb': "jb' = jb\<lparr>metasByMinTime :=
                 insort_key (\<lambda>x. (sint (MinTime x), ULID x)) m (metasByMinTime jb)\<rparr>"
    by (auto simp: AppendMeta_def split: if_splits)
  from inv have d: "distinct res" "set res = dom groups"
    "dom groups = DefaultGroupKey hsh ` set ps"
    by (simp_all add: groupsInv_def)
  from inv Some have old: "key jb = ?k" "?k = defaultGroupKey hsh (resolution jb) (labels jb)"
      "mset (metasByMinTime jb) = filter_mset (\<lambda>x. DefaultGroupKey hsh x = ?k) (mset ps)"
      "\<forall>p \<in> set ps. DefaultGroupKey hsh p = ?k \<longrightarrow> Labels p = labels jb"
    by (simp_all add: groupsInv_def)
  have a: "distinct res'" using d r' by simp
  have b: "set res' = dom groups'" using d g' r' Some by auto
  have c: "dom groups' = DefaultGroupKey hsh ` set (ps @ [m])" using d g' Some by auto
  have e: "key j = k \<and> k = defaultGroupKey hsh (resolution j) (labels j) \<and>
         mset (metasByMinTime j) = filter_mset (\<lambda>x. DefaultGroupKey hsh x = k) (mset (ps @ [m])) \<and>
         (\<forall>p \<in> set (ps @ [m]). DefaultGroupKey hsh p = k \<longrightarrow> Labels p = labels j)"
    if kj: "groups' k = Some j" for k j
  proof (cases "k = ?k")
    case True
    with kj g' have j: "j = jb'" by simp
    show ?thesis
      using True j jb' old lab by auto
  next
    case False
    with kj g' have "groups k = Some j" by simp
    with inv have "key j = k" "k = defaultGroupKey hsh (resolution j) (labels j)"
      "mset (metasByMinTime j) = filter_mset (\<lambda>x. DefaultGroupKey hsh x = k) (mset ps)"
      "\<forall>p \<in> set ps. DefaultGroupKey hsh p = k \<longrightarrow> Labels p = labels j"
      by (simp_all add: groupsInv_def)
    with False show ?thesis by auto
  qed
  from a b c e show ?thesis
    unfolding groupsInv_def by blast
qed

lemma groupsStep_fails:
  assumes inv: "groupsInv hsh ps groups res"
    and step: "groupsStep g hsh m (groups, res) = Inl e"
  shows "e = Wrap ''add compaction group'' (Plain ''block and group labels do not match'') \<and>
         (\<exists>p \<in> set ps. Resolution p = Resolution m \<and> hsh (Labels p) = hsh (Labels m) \<and>
            Labels p \<noteq> Labels m)"
proof (cases "groups (DefaultGroupKey hsh m)")
  case None
  from step groupsStep_new [where groups=groups and hsh=hsh and m=m and g=g and res=res] None show ?thesis by simp
next
  case (Some jb)
  let ?k = "DefaultGroupKey hsh m"
  from step groupsStep_old [where groups=groups and hsh=hsh and m=m and g=g and res=res and jb=jb] Some obtain e' where
    am: "AppendMeta jb m = Inl e'" and e: "e = Wrap ''add compaction group'' e'"
    by (auto split: sum.splits)
  from inv Some have old: "?k = defaultGroupKey hsh (resolution jb) (labels jb)"
      "\<forall>p \<in> set ps. DefaultGroupKey hsh p = ?k \<longrightarrow> Labels p = labels jb"
    by (simp_all add: groupsInv_def)
  from old(1) have res: "resolution jb = Resolution m"
    by (simp add: DefaultGroupKey_def defaultGroupKey_inj)
  with am have ne: "labels jb \<noteq> Labels m" and e': "e' = Plain ''block and group labels do not match''"
    by (auto simp: AppendMeta_def split: if_splits)
  from inv Some have "?k \<in> DefaultGroupKey hsh ` set ps"
    by (auto simp: groupsInv_def)
  then obtain p where p: "p \<in> set ps" "DefaultGroupKey hsh p = ?k" by auto
  with old(2) have "Labels p = labels jb" by simp
  with ne p show ?thesis
    using e e' by (auto simp: DefaultGroupKey_eq_iff)
qed

lemma groupsLoop_inv:
  "groupsInv hsh ps groups res \<Longrightarrow> groupsLoop g hsh ms (groups, res) = Inr (groups', res') \<Longrightarrow>
     groupsInv hsh (ps @ ms) groups' res'"
proof (induction ms arbitrary: ps groups res)
  case Nil
  then show ?case by simp
next
  case (Cons m ms)
  from Cons.prems(2) obtain groups1 res1 where
    st: "groupsStep g hsh m (groups, res) = Inr (groups1, res1)" and
    rest: "groupsLoop g hsh ms (groups1, res1) = Inr (groups', res')"
    by (auto split: sum.splits)
  from groupsInv_step [OF Cons.prems(1) st] have "groupsInv hsh (ps @ [m]) groups1 res1" .
  from Cons.IH [OF this rest] show ?case by simp
qed

lemma groupsLoop_fails:
  "groupsInv hsh ps groups res \<Longrightarrow> groupsLoop g hsh ms (groups, res) = Inl e \<Longrightarrow>
     e = Wrap ''add compaction group'' (Plain ''block and group labels do not match'') \<and>
     \<not> labelsAgree hsh (ps @ ms)"
proof (induction ms arbitrary: ps groups res)
  case Nil
  then show ?case by simp
next
  case (Cons m ms)
  show ?case
  proof (cases "groupsStep g hsh m (groups, res)")
    case (Inl e')
    with Cons.prems(2) have "e' = e" by simp
    with groupsStep_fails [OF Cons.prems(1) Inl] show ?thesis
      by (fastforce simp: labelsAgree_def)
  next
    case (Inr st1)
    obtain groups1 res1 where st1: "st1 = (groups1, res1)" by (cases st1)
    from Inr st1 Cons.prems(2) have rest: "groupsLoop g hsh ms (groups1, res1) = Inl e" by simp
    from groupsInv_step [OF Cons.prems(1) Inr [unfolded st1]]
    have "groupsInv hsh (ps @ [m]) groups1 res1" .
    from Cons.IH [OF this rest] show ?thesis by simp
  qed
qed

lemma groupsInv_labelsAgree:
  assumes "groupsInv hsh ps groups res"
  shows "labelsAgree hsh ps"
  unfolding labelsAgree_def
proof (intro ballI impI)
  fix a b
  assume a: "a \<in> set ps" and b: "b \<in> set ps" and
    "Resolution a = Resolution b \<and> hsh (Labels a) = hsh (Labels b)"
  then have k: "DefaultGroupKey hsh a = DefaultGroupKey hsh b"
    by (simp add: DefaultGroupKey_eq_iff)
  from assms a have "DefaultGroupKey hsh a \<in> dom groups"
    by (auto simp: groupsInv_def)
  then obtain j where j: "groups (DefaultGroupKey hsh a) = Some j" by auto
  with assms have "\<forall>p \<in> set ps. DefaultGroupKey hsh p = DefaultGroupKey hsh a \<longrightarrow> Labels p = labels j"
    by (simp add: groupsInv_def)
  with a b k show "Labels a = Labels b" by simp
qed


text \<open>The pair that identifies the group of a block and of a job.\<close>

definition groupOf :: "(labelset \<Rightarrow> 64 word) \<Rightarrow> meta \<Rightarrow> 64 word \<times> 64 word" where
  "groupOf lblsHash m = (Resolution m, lblsHash (Labels m))"

definition jobGroup :: "(labelset \<Rightarrow> 64 word) \<Rightarrow> job \<Rightarrow> 64 word \<times> 64 word" where
  "jobGroup lblsHash j = (resolution j, lblsHash (labels j))"

lemma map_filter_dom:
  "set ks \<subseteq> dom f \<Longrightarrow> List.map_filter f ks = map (\<lambda>k. the (f k)) ks"
  by (induction ks) (auto simp: map_filter_simps)

lemma hash_collision: "\<exists>l1 l2 :: labelset. l1 \<noteq> l2 \<and> (hsh l1 :: 64 word) = hsh l2"
proof (rule ccontr)
  assume "\<not> (\<exists>l1 l2 :: labelset. l1 \<noteq> l2 \<and> hsh l1 = hsh l2)"
  then have "inj hsh" by (auto simp: inj_def)
  moreover have "finite (range hsh)" by (rule finite_subset [OF subset_UNIV]) simp
  ultimately have "finite (UNIV :: labelset set)" by (rule finite_imageD [rotated])
  then show False by (simp add: infinite_UNIV_listI)
qed

lemma Groups_ok:
  assumes "labelsAgree hsh blockMetas"
  obtains groups res where
    "groupsLoop g hsh blockMetas (Map.empty, []) = Inr (groups, res)"
    "groupsInv hsh blockMetas groups res"
proof (cases "groupsLoop g hsh blockMetas (Map.empty, [])")
  case (Inl e)
  from groupsLoop_fails [OF groupsInv_empty Inl] assms show ?thesis by simp
next
  case (Inr st)
  obtain groups res where st: "st = (groups, res)" by (cases st)
  from groupsLoop_inv [OF groupsInv_empty Inr [unfolded st]] have "groupsInv hsh blockMetas groups res"
    by simp
  with Inr st that show ?thesis by simp
qed

lemma Groups_error:
  assumes "\<not> labelsAgree hsh blockMetas"
  shows "Groups g hsh blockMetas
     = Inl (Wrap ''add compaction group'' (Plain ''block and group labels do not match''))"
proof (cases "groupsLoop g hsh blockMetas (Map.empty, [])")
  case (Inl e)
  from groupsLoop_fails [OF groupsInv_empty Inl] Inl show ?thesis
    by (simp add: Groups_def)
next
  case (Inr st)
  obtain groups res where st: "st = (groups, res)" by (cases st)
  from groupsLoop_inv [OF groupsInv_empty Inr [unfolded st]] have "groupsInv hsh blockMetas groups res"
    by simp
  from groupsInv_labelsAgree [OF this] assms show ?thesis by simp
qed

lemma Groups_jobs:
  assumes loop: "groupsLoop g hsh blockMetas (Map.empty, []) = Inr (groups, res)"
    and inv: "groupsInv hsh blockMetas groups res"
  defines "jobs \<equiv> List.map_filter groups (sort res)"
  shows "Groups g hsh blockMetas = Inr jobs"
    and "map key jobs = sort res"
    and "sorted (map key jobs)" and "distinct (map key jobs)"
    and "distinct (map (jobGroup hsh) jobs)"
    and "jobGroup hsh ` set jobs = groupOf hsh ` set blockMetas"
    and "\<forall>j \<in> set jobs. key j = defaultGroupKey hsh (resolution j) (labels j) \<and>
           mset (metasByMinTime j)
             = filter_mset (\<lambda>m. groupOf hsh m = jobGroup hsh j) (mset blockMetas)"
proof -
  from inv have d: "distinct res" "set res = dom groups"
    "dom groups = DefaultGroupKey hsh ` set blockMetas"
    and each: "\<And>k j. groups k = Some j \<Longrightarrow>
         key j = k \<and> k = defaultGroupKey hsh (resolution j) (labels j) \<and>
         mset (metasByMinTime j) = filter_mset (\<lambda>m. DefaultGroupKey hsh m = k) (mset blockMetas)"
    by (simp_all add: groupsInv_def)
  show g: "Groups g hsh blockMetas = Inr jobs"
    using loop by (simp add: Groups_def jobs_def)
  have jobs: "jobs = map (\<lambda>k. the (groups k)) (sort res)"
    unfolding jobs_def using d(2) by (intro map_filter_dom) simp
  have keyk: "key (the (groups k)) = k" if "k \<in> set res" for k
  proof -
    from that d(2) obtain j where "groups k = Some j" by auto
    with each [OF this] show ?thesis by simp
  qed
  show keys: "map key jobs = sort res"
  proof -
    have "map (\<lambda>k. key (the (groups k))) (sort res) = sort res"
      by (rule map_idI) (simp add: keyk)
    then show ?thesis unfolding jobs by (simp add: comp_def)
  qed
  show "sorted (map key jobs)" unfolding keys by simp
  show dk: "distinct (map key jobs)" unfolding keys using d(1) by simp
  have mem: "groups (key j) = Some j" if "j \<in> set jobs" for j
  proof -
    from that jobs obtain k where k: "k \<in> set res" "j = the (groups k)" by auto
    with d(2) obtain j' where j': "groups k = Some j'" by auto
    with k each [OF j'] show ?thesis by simp
  qed
  have kg: "key j = defaultGroupKey hsh (resolution j) (labels j)" if "j \<in> set jobs" for j
    using each [OF mem [OF that]] by simp
  have same: "(DefaultGroupKey hsh m = key j) = (groupOf hsh m = jobGroup hsh j)"
    if "j \<in> set jobs" for j m
    using kg [OF that]
    by (simp add: DefaultGroupKey_def defaultGroupKey_inj groupOf_def jobGroup_def)
  show "distinct (map (jobGroup hsh) jobs)"
  proof -
    have "inj_on key (set jobs)" "distinct jobs"
      using dk by (simp_all add: distinct_map)
    moreover have "inj_on (jobGroup hsh) (set jobs)"
    proof (rule inj_onI)
      fix a b assume a: "a \<in> set jobs" and b: "b \<in> set jobs" and
        eq: "jobGroup hsh a = jobGroup hsh b"
      then have "key a = key b"
        using kg [OF a] kg [OF b] by (simp add: jobGroup_def defaultGroupKey_inj)
      with \<open>inj_on key (set jobs)\<close> a b show "a = b" by (auto dest: inj_onD)
    qed
    ultimately show ?thesis by (simp add: distinct_map)
  qed
  show "jobGroup hsh ` set jobs = groupOf hsh ` set blockMetas"
  proof (intro set_eqI iffI)
    fix x assume "x \<in> jobGroup hsh ` set jobs"
    then obtain j where j: "j \<in> set jobs" "x = jobGroup hsh j" by auto
    from mem [OF j(1)] d(3) obtain m where m: "m \<in> set blockMetas" "DefaultGroupKey hsh m = key j"
      by (metis domI imageE)
    with same [OF j(1), of m] j(2) have "x = groupOf hsh m" by simp
    with m(1) show "x \<in> groupOf hsh ` set blockMetas" by simp
  next
    fix x assume "x \<in> groupOf hsh ` set blockMetas"
    then obtain m where m: "m \<in> set blockMetas" "x = groupOf hsh m" by auto
    with d(2,3) have "DefaultGroupKey hsh m \<in> set res" by auto
    then have "DefaultGroupKey hsh m \<in> set (map key jobs)" unfolding keys by simp
    then obtain j where j: "j \<in> set jobs" "key j = DefaultGroupKey hsh m" by auto
    with same [OF j(1), of m] m(2) have "x = jobGroup hsh j" by simp
    with j(1) show "x \<in> jobGroup hsh ` set jobs" by simp
  qed
  show "\<forall>j \<in> set jobs. key j = defaultGroupKey hsh (resolution j) (labels j) \<and>
           mset (metasByMinTime j)
             = filter_mset (\<lambda>m. groupOf hsh m = jobGroup hsh j) (mset blockMetas)"
  proof (intro ballI conjI)
    fix j assume j: "j \<in> set jobs"
    show "key j = defaultGroupKey hsh (resolution j) (labels j)" by (rule kg [OF j])
    from each [OF mem [OF j]] have
      "mset (metasByMinTime j) = filter_mset (\<lambda>m. DefaultGroupKey hsh m = key j) (mset blockMetas)"
      by simp
    then show "mset (metasByMinTime j)
             = filter_mset (\<lambda>m. groupOf hsh m = jobGroup hsh j) (mset blockMetas)"
      by (simp add: same [OF j])
  qed
qed


subsection \<open>The default grouper: the claim\<close>

text \<open>
  C5, amended. When blocks that share (resolution, label hash) also share their labels,
  \<open>Groups\<close> returns jobs sorted by \<open>Key\<close> ascending with distinct keys, exactly one job
  per (resolution, label hash) pair occurring among the blocks, and each job holds exactly
  the blocks of its pair. Otherwise (two blocks with one pair and different labels)
  \<open>AppendMeta\<close> refuses a block and \<open>Groups\<close> returns that error and no jobs.
\<close>

theorem C5_Groups_partition:
  "(labelsAgree hsh blockMetas \<longrightarrow>
      (\<exists>jobs. Groups g hsh blockMetas = Inr jobs \<and>
         sorted (map key jobs) \<and> distinct (map key jobs) \<and>
         distinct (map (jobGroup hsh) jobs) \<and>
         jobGroup hsh ` set jobs = groupOf hsh ` set blockMetas \<and>
         (\<forall>j \<in> set jobs. key j = defaultGroupKey hsh (resolution j) (labels j) \<and>
            mset (metasByMinTime j)
              = filter_mset (\<lambda>m. groupOf hsh m = jobGroup hsh j) (mset blockMetas))))
   \<and> (\<not> labelsAgree hsh blockMetas \<longrightarrow>
        Groups g hsh blockMetas
          = Inl (Wrap ''add compaction group'' (Plain ''block and group labels do not match'')))"
proof (intro conjI impI)
  assume "labelsAgree hsh blockMetas"
  then obtain groups res where
    loop: "groupsLoop g hsh blockMetas (Map.empty, []) = Inr (groups, res)" and
    inv: "groupsInv hsh blockMetas groups res"
    by (rule Groups_ok)
  from Groups_jobs [OF loop inv]
  show "\<exists>jobs. Groups g hsh blockMetas = Inr jobs \<and>
         sorted (map key jobs) \<and> distinct (map key jobs) \<and>
         distinct (map (jobGroup hsh) jobs) \<and>
         jobGroup hsh ` set jobs = groupOf hsh ` set blockMetas \<and>
         (\<forall>j \<in> set jobs. key j = defaultGroupKey hsh (resolution j) (labels j) \<and>
            mset (metasByMinTime j)
              = filter_mset (\<lambda>m. groupOf hsh m = jobGroup hsh j) (mset blockMetas))"
    by (intro exI [of _ "List.map_filter groups (sort res)"] conjI)
next
  assume "\<not> labelsAgree hsh blockMetas"
  then show "Groups g hsh blockMetas
          = Inl (Wrap ''add compaction group'' (Plain ''block and group labels do not match''))"
    by (rule Groups_error)
qed

text \<open>
  C5, as stated, fails: it is claimed for every map of block metas, but whatever the
  64-bit hash function is, there are two label sets with one hash, and on two blocks with
  these labels and one resolution (a single pair) \<open>Groups\<close> returns an error, not a job.
\<close>

theorem C5_hash_collision_counterexample:
  "\<forall>hsh. \<exists>l1 l2.
     groupOf hsh (exBlock 1 0 0 l1) = groupOf hsh (exBlock 2 10 0 l2) \<and>
     Groups exGrouper hsh [exBlock 1 0 0 l1, exBlock 2 10 0 l2]
       = Inl (Wrap ''add compaction group'' (Plain ''block and group labels do not match''))"
proof
  fix hsh :: "labelset \<Rightarrow> 64 word"
  from hash_collision [of hsh] obtain l1 l2 where l: "l1 \<noteq> l2" "hsh l1 = hsh l2" by blast
  then have "\<not> labelsAgree hsh [exBlock 1 0 0 l1, exBlock 2 10 0 l2]"
    by (simp add: labelsAgree_def)
  from Groups_error [OF this, of exGrouper] l(2)
  show "\<exists>l1 l2.
     groupOf hsh (exBlock 1 0 0 l1) = groupOf hsh (exBlock 2 10 0 l2) \<and>
     Groups exGrouper hsh [exBlock 1 0 0 l1, exBlock 2 10 0 l2]
       = Inl (Wrap ''add compaction group'' (Plain ''block and group labels do not match''))"
    by (intro exI [of _ l1] exI [of _ l2]) (simp add: groupOf_def)
qed

abbreviation exHash :: "labelset \<Rightarrow> 64 word" where
  "exHash \<equiv> \<lambda>l. of_nat (length l)"

abbreviation exBlocks :: "meta list" where
  "exBlocks \<equiv>
     [exBlock 1 20 0 [(''tenant'', ''a'')], exBlock 2 10 300000 [(''tenant'', ''a'')],
      exBlock 3 10 0 [(''tenant'', ''a'')], exBlock 4 0 0 []]"

lemmas groups_defs =
  Groups_def groupsStep_def DefaultGroupKey_def defaultGroupKey_def formatInt_def
  formatUint.simps digitChar_def AppendMeta_def NewJob_def map_filter_simps Let_def


theorem C5_Groups_partition_witness:
  "labelsAgree exHash exBlocks
   \<and> (\<exists>jobs. Groups exGrouper exHash exBlocks = Inr jobs \<and>
        map key jobs = [''0@0'', ''0@1'', ''300000@1''] \<and>
        sorted (map key jobs) \<and> distinct (map (jobGroup exHash) jobs) \<and>
        map (map ULID \<circ> metasByMinTime) jobs = [[4], [3, 1], [2]])
   \<and> \<not> labelsAgree (\<lambda>l. 7)
         [exBlock 1 0 0 [(''tenant'', ''a'')], exBlock 2 10 0 [(''tenant'', ''b'')]]
   \<and> Groups exGrouper (\<lambda>l. 7)
         [exBlock 1 0 0 [(''tenant'', ''a'')], exBlock 2 10 0 [(''tenant'', ''b'')]]
       = Inl (Wrap ''add compaction group'' (Plain ''block and group labels do not match''))"
proof -
  have agree: "labelsAgree exHash exBlocks"
    by (simp add: labelsAgree_def)
  with C5_Groups_partition [of exHash exBlocks exGrouper] obtain jobs where
    jobs: "Groups exGrouper exHash exBlocks = Inr jobs" "sorted (map key jobs)"
      "distinct (map (jobGroup exHash) jobs)"
    by blast
  have "map key (projr (Groups exGrouper exHash exBlocks)) = [''0@0'', ''0@1'', ''300000@1'']"
    by (simp add: groups_defs)
  with jobs(1) have keys: "map key jobs = [''0@0'', ''0@1'', ''300000@1'']" by simp
  have "map (map ULID \<circ> metasByMinTime) (projr (Groups exGrouper exHash exBlocks))
      = [[4], [3, 1], [2]]"
    by (simp add: groups_defs)
  with jobs(1) have metas: "map (map ULID \<circ> metasByMinTime) jobs = [[4], [3, 1], [2]]" by simp
  let ?bad = "[exBlock 1 0 0 [(''tenant'', ''a'')], exBlock 2 10 0 [(''tenant'', ''b'')]]"
  have clash: "\<not> labelsAgree (\<lambda>l. 7) ?bad"
    by (simp add: labelsAgree_def)
  with C5_Groups_partition [of "\<lambda>l. 7" ?bad exGrouper]
  have err: "Groups exGrouper (\<lambda>l. 7) ?bad
      = Inl (Wrap ''add compaction group'' (Plain ''block and group labels do not match''))"
    by blast
  from jobs(1) keys jobs(2,3) metas have "\<exists>jobs. Groups exGrouper exHash exBlocks = Inr jobs \<and>
        map key jobs = [''0@0'', ''0@1'', ''300000@1''] \<and>
        sorted (map key jobs) \<and> distinct (map (jobGroup exHash) jobs) \<and>
        map (map ULID \<circ> metasByMinTime) jobs = [[4], [3, 1], [2]]"
    by (intro exI [of _ jobs] conjI)
  with agree clash err show ?thesis by (intro conjI)
qed

end
